theory Spec2Isabelle
  imports Main "HOL-Library.Word"
begin

unbundle bit_operations_syntax

section \<open>The bit-field overlay \<open>struct wwvbBuffer\<close>\<close>

text \<open>
  Both sketches declare a \<open>struct wwvbBuffer\<close> of bit-fields and lay it over one
  \<open>unsigned long long\<close> by a pointer cast. The members are listed here in declaration
  order with their widths. The compiler of the target (avr-gcc, little endian) allocates
  bit-fields from the least significant bit upwards, which is also what the sketches rely
  on (\<open>buffer\<close> puts the first received bit into bit 63 and \<open>MinTen\<close> is declared last):
  the offset of a member is the sum of the widths declared before it.
\<close>

datatype field =
    U00 | U01 | U02 | U03 | U04 | U05 | U06 | U07 | U08 | U09 | U10 | U11 | U12
  | Frame | Dst | Leapsec | Leapyear | YearOne | YearTen | OffVal | OffSign
  | DayOne | DayTen | DayHun | HourOne | HourTen | MinOne | MinTen

type_synonym layout = "(field \<times> nat) list"

text \<open>\<open>struct wwvbBuffer\<close> of wwvb_clock.ino (the receiver).\<close>

definition wwvbBuffer_clock :: layout where
  "wwvbBuffer_clock =
    [(U12, 4), (Frame, 2), (Dst, 2), (Leapsec, 1), (Leapyear, 1), (U11, 1),
     (YearOne, 4), (U10, 1), (YearTen, 4), (U09, 1), (OffVal, 4), (U08, 1),
     (OffSign, 3), (U07, 2), (DayOne, 4), (U06, 1), (DayTen, 4), (U05, 1),
     (DayHun, 2), (U04, 3), (HourOne, 4), (U03, 1), (HourTen, 2), (U02, 3),
     (MinOne, 4), (U01, 1), (MinTen, 3)]"

text \<open>\<open>struct wwvbBuffer\<close> of wwvb_signal_simulator.pde (the transmitter): \<open>Frame\<close> is one
  bit wide and a member \<open>U00\<close> is declared after \<open>MinTen\<close>.\<close>

definition wwvbBuffer_sim :: layout where
  "wwvbBuffer_sim =
    [(U12, 4), (Frame, 1), (Dst, 2), (Leapsec, 1), (Leapyear, 1), (U11, 1),
     (YearOne, 4), (U10, 1), (YearTen, 4), (U09, 1), (OffVal, 4), (U08, 1),
     (OffSign, 3), (U07, 2), (DayOne, 4), (U06, 1), (DayTen, 4), (U05, 1),
     (DayHun, 2), (U04, 3), (HourOne, 4), (U03, 1), (HourTen, 2), (U02, 3),
     (MinOne, 4), (U01, 1), (MinTen, 3), (U00, 1)]"

fun offsetOf :: "layout \<Rightarrow> field \<Rightarrow> nat" where
  "offsetOf [] f = 0"
| "offsetOf ((g, w) # L) f = (if g = f then 0 else w + offsetOf L f)"

fun widthOf :: "layout \<Rightarrow> field \<Rightarrow> nat" where
  "widthOf [] f = 0"
| "widthOf ((g, w) # L) f = (if g = f then w else widthOf L f)"

text \<open>Reading a member promotes its bits to an integer; storing into it keeps the low
  \<open>width\<close> bits of the value and leaves the other members alone.\<close>

definition getBits :: "nat \<Rightarrow> nat \<Rightarrow> 64 word \<Rightarrow> nat" where
  "getBits off w b = unat (take_bit w (drop_bit off b))"

definition setBits :: "nat \<Rightarrow> nat \<Rightarrow> nat \<Rightarrow> 64 word \<Rightarrow> 64 word" where
  "setBits off w v b =
     (b AND NOT (push_bit off (mask w))) OR push_bit off (take_bit w (of_nat v))"

definition getField :: "layout \<Rightarrow> field \<Rightarrow> 64 word \<Rightarrow> nat" where
  "getField L f b = getBits (offsetOf L f) (widthOf L f) b"

definition setField :: "layout \<Rightarrow> field \<Rightarrow> nat \<Rightarrow> 64 word \<Rightarrow> 64 word" where
  "setField L f v b = setBits (offsetOf L f) (widthOf L f) v b"

section \<open>The receiver: wwvb_clock.ino\<close>

text \<open>
  The globals of the sketch that the decoder reads or writes. \<open>int\<close> counters are
  modelled as mathematical integers: in every state the sketch can reach they stay
  between 0 and 61 (lemma \<open>reachable_bounds\<close> below), far from the 16-bit limit.
  The serial trace and the front-panel light are write-only outputs and are left out.
\<close>

record clock =
  pulseStartTime :: "32 word"
  pulseEndTime :: "32 word"
  frameEndTime :: "32 word"
  bitReceived :: bool
  wasMark :: bool
  framePosition :: int
  bitPosition :: int
  lastBit :: char
  errors :: "int list"
  errIdx :: int
  bitError :: int
  frameError :: bool
  receiveBuffer :: "64 word"
  lastFrameBuffer :: "64 word"

text \<open>The initialisers of the globals, and \<open>setup\<close> clearing both buffers.\<close>

definition initClock :: clock where
  "initClock = \<lparr> pulseStartTime = 0, pulseEndTime = 0, frameEndTime = 0,
     bitReceived = False, wasMark = False, framePosition = 0, bitPosition = 1,
     lastBit = CHR '' '', errors = [1, 1, 1, 1, 1, 1, 1, 1, 1, 1], errIdx = 0,
     bitError = 0, frameError = False, receiveBuffer = 0, lastFrameBuffer = 0 \<rparr>"

text \<open>\<open>wwvbChange\<close>, the interrupt routine run on every change of the input pin.\<close>

datatype level = LOW | HIGH

definition wwvbChange :: "level \<Rightarrow> 32 word \<Rightarrow> clock \<Rightarrow> clock" where
  "wwvbChange signalLevel millis s =
     (if signalLevel = LOW then s\<lparr>pulseStartTime := millis\<rparr>
      else s\<lparr>pulseEndTime := millis, bitReceived := True\<rparr>)"

text \<open>\<open>logFrameError\<close>: the ring buffer over the last 10 frames. The store
  \<open>errors[errIdx]\<close> is inside the array in every reachable state, where
  \<open>0 \<le> errIdx < 10\<close>.\<close>

definition logFrameError :: "bool \<Rightarrow> clock \<Rightarrow> clock" where
  "logFrameError err s =
     (let add = (if err then 1 else 0);
          s1 = s\<lparr>errors := (errors s)[nat (errIdx s) := add]\<rparr>;
          i = errIdx s1 + 1
      in if i \<ge> 10 then s1\<lparr>errIdx := 0\<rparr> else s1\<lparr>errIdx := i\<rparr>)"

text \<open>\<open>sumFrameErrors\<close>: the sketch declares \<open>int i, rv;\<close> and adds the ten slots onto
  \<open>rv\<close> without ever initialising it. The value \<open>rv\<close> holds when the loop starts is
  whatever the register or stack slot contained; it is the first argument here.\<close>

definition sumFrameErrors :: "int \<Rightarrow> clock \<Rightarrow> int" where
  "sumFrameErrors rv0 s = fold (\<lambda>i rv. rv + errors s ! i) [0..<10] rv0"

text \<open>\<open>buffer\<close>: record the symbol for the display, count a position marker, push the
  bit and advance. The shift \<open>64 - bitPosition\<close> is between 4 and 63 in every reachable
  state.\<close>

definition buffer :: "int \<Rightarrow> clock \<Rightarrow> clock" where
  "buffer bitv s =
     (let s1 = (if bitv = 0 then s\<lparr>lastBit := CHR ''0''\<rparr>
                else if bitv = 1 then s\<lparr>lastBit := CHR ''1''\<rparr>
                else if bitv = -1 then s\<lparr>lastBit := CHR ''M'',
                                         framePosition := framePosition s + 1\<rparr>
                else if bitv = -2 then s\<lparr>lastBit := CHR ''X''\<rparr>
                else s);
          bit1 = (if bitv < 0 then 0 else bitv);
          s2 = s1\<lparr>receiveBuffer := receiveBuffer s1 OR
                    push_bit (nat (64 - bitPosition s1)) (word_of_int bit1)\<rparr>
      in s2\<lparr>bitPosition := bitPosition s2 + 1\<rparr>)"

text \<open>The five assignments that reset the frame pointers; the sketch writes them out
  twice, after a frame boundary and in the overflow block.\<close>

definition resetFrame :: "clock \<Rightarrow> clock" where
  "resetFrame s = s\<lparr>framePosition := 0, bitPosition := 1, wasMark := False,
                    bitError := 0, receiveBuffer := 0\<rparr>"

text \<open>The width of the last pulse, an \<open>unsigned int\<close> (16 bits on the ATmega328) taken
  from the difference of the two 32-bit timestamps.\<close>

definition pulseWidthOf :: "clock \<Rightarrow> 16 word" where
  "pulseWidthOf s = ucast (pulseEndTime s - pulseStartTime s)"

text \<open>The if-chain of \<open>processBit\<close> selects a branch by the pulse width alone. Which
  branch it takes is named here; \<open>processBit\<close> below is written with the same chain.\<close>

datatype PulseClass = Marker | Zero | One | Invalid

definition pulseClass :: "16 word \<Rightarrow> PulseClass" where
  "pulseClass pulseWidth =
     (if pulseWidth < 100 then Invalid
      else if pulseWidth < 400 then Zero
      else if pulseWidth < 700 then One
      else if pulseWidth < 900 then Marker
      else Invalid)"

text \<open>The body of the first and of the last branch (too short, too long):
  \<open>buffer(-2); bitError++; wasMark = false;\<close>\<close>

definition invalidPulse :: "clock \<Rightarrow> clock" where
  "invalidPulse s =
     (let a = buffer (-2) s; b = a\<lparr>bitError := bitError a + 1\<rparr>
      in b\<lparr>wasMark := False\<rparr>)"

text \<open>The body of the frame-marker branch: the second of two markers in a row closes the
  frame, any other marker is a position marker.\<close>

definition markerPulse :: "clock \<Rightarrow> clock" where
  "markerPulse s =
     (if wasMark s then
        (let a = s\<lparr>lastBit := CHR ''*''\<rparr>;
             b = (if framePosition a = 6 \<and> bitPosition a = 60 \<and> bitError a = 0
                  then logFrameError False
                         (a\<lparr>frameEndTime := pulseStartTime a,
                            lastFrameBuffer := receiveBuffer a\<rparr>)
                  else a\<lparr>frameError := True\<rparr>)
         in resetFrame b)
      else (buffer (-1) s)\<lparr>wasMark := True\<rparr>)"

text \<open>The closing block of \<open>processBit\<close>:
  \<open>if (frameError == true || bitPosition > 60) { ... }\<close>\<close>

definition frameCheck :: "clock \<Rightarrow> clock" where
  "frameCheck s =
     (if frameError s \<or> bitPosition s > 60
      then resetFrame (logFrameError True (s\<lparr>frameError := False\<rparr>))
      else s)"

definition processBit :: "clock \<Rightarrow> clock" where
  "processBit s0 =
     (let s = s0\<lparr>bitReceived := False\<rparr>;
          pulseWidth = pulseWidthOf s;
          s1 = (if pulseWidth < 100 then invalidPulse s
                else if pulseWidth < 400 then (buffer 0 s)\<lparr>wasMark := False\<rparr>
                else if pulseWidth < 700 then (buffer 1 s)\<lparr>wasMark := False\<rparr>
                else if pulseWidth < 900 then markerPulse s
                else invalidPulse s)
      in frameCheck s1)"

text \<open>\<open>incrementWwvbMinute\<close> works through \<open>wwvbFrame\<close>, which points at
  \<open>lastFrameBuffer\<close>. Each definition is one statement of the function, in order.\<close>

abbreviation rd :: "field \<Rightarrow> 64 word \<Rightarrow> nat" where
  "rd f b \<equiv> getField wwvbBuffer_clock f b"

abbreviation wr :: "field \<Rightarrow> nat \<Rightarrow> 64 word \<Rightarrow> 64 word" where
  "wr f v b \<equiv> setField wwvbBuffer_clock f v b"

definition tickMinOne :: "64 word \<Rightarrow> 64 word" where
  "tickMinOne b =
     (let b1 = wr MinOne (rd MinOne b + 1) b
      in if rd MinOne b1 = 10 then wr MinTen (rd MinTen b1 + 1) (wr MinOne 0 b1) else b1)"

definition carryMinTen :: "64 word \<Rightarrow> 64 word" where
  "carryMinTen b =
     (if rd MinTen b = 6 then wr HourOne (rd HourOne b + 1) (wr MinTen 0 b) else b)"

definition carryHourOne :: "64 word \<Rightarrow> 64 word" where
  "carryHourOne b =
     (if rd HourOne b = 10 then wr HourTen (rd HourTen b + 1) (wr HourOne 0 b) else b)"

definition carryHour :: "64 word \<Rightarrow> 64 word" where
  "carryHour b =
     (if rd HourTen b = 2 \<and> rd HourOne b = 4
      then wr DayOne (rd DayOne b + 1) (wr HourOne 0 (wr HourTen 0 b)) else b)"

definition carryDayOne :: "64 word \<Rightarrow> 64 word" where
  "carryDayOne b =
     (if rd DayOne b = 10 then wr DayTen (rd DayTen b + 1) (wr DayOne 0 b) else b)"

definition carryDayTen :: "64 word \<Rightarrow> 64 word" where
  "carryDayTen b =
     (if rd DayTen b = 10 then wr DayHun (rd DayHun b + 1) (wr DayTen 0 b) else b)"

definition newYear :: "64 word \<Rightarrow> 64 word" where
  "newYear b =
     (if rd DayHun b = 3 \<and> rd DayTen b = 6 \<and> rd DayOne b = 6 + rd Leapyear b
      then wr YearOne (rd YearOne b + 1) (wr DayOne 1 (wr DayTen 0 (wr DayHun 0 b)))
      else b)"

definition carryYearOne :: "64 word \<Rightarrow> 64 word" where
  "carryYearOne b =
     (if rd YearOne b = 10 then wr YearTen (rd YearTen b + 1) (wr YearOne 0 b) else b)"

definition carryYearTen :: "64 word \<Rightarrow> 64 word" where
  "carryYearTen b = (if rd YearTen b = 10 then wr YearTen 0 b else b)"

definition incrementWwvbMinute :: "64 word \<Rightarrow> 64 word" where
  "incrementWwvbMinute b =
     carryYearTen (carryYearOne (newYear (carryDayTen (carryDayOne
       (carryHour (carryHourOne (carryMinTen (tickMinOne b))))))))"

text \<open>The day of the year as \<open>updateRTC\<close> puts it together (\<open>int doy\<close>).\<close>

definition doy :: "64 word \<Rightarrow> nat" where
  "doy b = rd DayHun b * 100 + rd DayTen b * 10 + rd DayOne b"

text \<open>\<open>updateRTC\<close>, as far as it touches the globals of the decoder: it advances the held
  frame by the minute it is old when it has been received. The seconds, the clock registers
  it computes from the frame and writes to the DS1307, and \<open>lastTimeUpdate\<close> belong to the
  clock store and the display and are left out.\<close>

definition updateRTC :: "clock \<Rightarrow> clock" where
  "updateRTC s = s\<lparr>lastFrameBuffer := incrementWwvbMinute (lastFrameBuffer s)\<rparr>"

text \<open>One pass of \<open>loop\<close>. Whether \<open>millis() - lastRtcUpdateTime > 250\<close> holds in the pass
  is the argument \<open>rtcDue\<close>; of the second branch, \<open>getRTC\<close>, \<open>lastRtcUpdateTime\<close> and
  \<open>updateDisplay\<close> touch the clock store and the display only.\<close>

definition loop :: "bool \<Rightarrow> clock \<Rightarrow> clock" where
  "loop rtcDue s0 =
     (let s = (if bitReceived s0 then processBit s0 else s0)
      in if rtcDue
         then (if frameEndTime s \<noteq> 0 then (updateRTC s)\<lparr>frameEndTime := 0\<rparr> else s)
         else s)"

text \<open>
  A pulse is the pair of times at which the input falls and rises again. The interrupt
  routine runs at both edges and \<open>loop\<close> runs before the next pulse starts. \<open>rxPulse\<close> is
  the pass of \<open>loop\<close> that processes the pulse, up to the return of \<open>processBit\<close> (the
  250 ms branch not due in that pass); \<open>rxPulses\<close> is the decoder taking one pulse after
  the other. Runs in which the 250 ms branch comes in between are \<open>runLoop\<close>.
\<close>

type_synonym pulse = "32 word \<times> 32 word"

definition rxPulse :: "pulse \<Rightarrow> clock \<Rightarrow> clock" where
  "rxPulse p s = loop False (wwvbChange HIGH (snd p) (wwvbChange LOW (fst p) s))"

definition rxPulses :: "pulse list \<Rightarrow> clock \<Rightarrow> clock" where
  "rxPulses ps s = fold rxPulse ps s"




section \<open>The transmitter: wwvb_signal_simulator.pde\<close>

text \<open>The three output routines \<open>sendMark\<close>, \<open>sendWeighted\<close> and \<open>sendUnweighted\<close>
  hold the pin low, then high, for these many milliseconds.\<close>

datatype signal = Mark | Weighted | Unweighted

fun lowMillis :: "signal \<Rightarrow> 32 word" where
  "lowMillis Mark = 800"
| "lowMillis Weighted = 500"
| "lowMillis Unweighted = 200"

fun highMillis :: "signal \<Rightarrow> 32 word" where
  "highMillis Mark = 200"
| "highMillis Weighted = 500"
| "highMillis Unweighted = 800"

text \<open>The \<open>for\<close> loop of \<open>loop\<close>: \<open>i\<close> runs over the given indices, \<open>position\<close> counts
  the iterations.\<close>

fun sendBits :: "64 word \<Rightarrow> nat \<Rightarrow> nat list \<Rightarrow> signal list" where
  "sendBits timeBits position [] = []"
| "sendBits timeBits position (i # js) =
     (let mask = (push_bit i 1 :: 64 word);
          bitv = (if timeBits AND mask \<noteq> 0 then 1 else 0 :: int);
          mark = (position = 0 \<or> (position + 1) mod 10 = 0)
      in (if mark then Mark else if bitv = 0 then Unweighted else Weighted)
         # sendBits timeBits (position + 1) js)"

definition sendFrame :: "64 word \<Rightarrow> signal list" where
  "sendFrame timeBits = sendBits timeBits 0 (rev [4..<64])"

text \<open>The pulses the receiver sees when the signals go out one after the other from
  time \<open>t\<close> on.\<close>

fun onAir :: "32 word \<Rightarrow> signal list \<Rightarrow> pulse list" where
  "onAir t [] = []"
| "onAir t (x # xs) = (t, t + lowMillis x) # onAir (t + lowMillis x + highMillis x) xs"

text \<open>\<open>setup\<close> clears \<open>timeBits\<close> and stores the fourteen data members. The values it
  stores are the argument here; the sketch's own are \<open>setupFrame\<close>.\<close>

record TimeFrame =
  minuteTens :: nat
  minuteOnes :: nat
  hourTens :: nat
  hourOnes :: nat
  dayHundreds :: nat
  dayTens :: nat
  dayOnes :: nat
  ut1Sign :: nat
  ut1Magnitude :: nat
  yearTens :: nat
  yearOnes :: nat
  dstStatus :: nat
  leapYear :: nat
  leapSecondPending :: nat

definition preset :: "TimeFrame \<Rightarrow> 64 word" where
  "preset T =
     (let w = setField wwvbBuffer_sim in
      w Leapsec (leapSecondPending T) (w Leapyear (leapYear T) (w Dst (dstStatus T)
      (w YearOne (yearOnes T) (w YearTen (yearTens T) (w OffVal (ut1Magnitude T)
      (w OffSign (ut1Sign T) (w DayOne (dayOnes T) (w DayTen (dayTens T)
      (w DayHun (dayHundreds T) (w HourOne (hourOnes T) (w HourTen (hourTens T)
      (w MinOne (minuteOnes T) (w MinTen (minuteTens T) 0))))))))))))))"

definition setupFrame :: TimeFrame where
  "setupFrame = \<lparr> minuteTens = 5, minuteOnes = 7, hourTens = 2, hourOnes = 3,
     dayHundreds = 3, dayTens = 6, dayOnes = 5, ut1Sign = 5, ut1Magnitude = 3,
     yearTens = 1, yearOnes = 0, dstStatus = 3, leapYear = 0, leapSecondPending = 0 \<rparr>"

text \<open>The data members of a buffer, read through a layout.\<close>

definition frameOf :: "layout \<Rightarrow> 64 word \<Rightarrow> TimeFrame" where
  "frameOf L b = \<lparr> minuteTens = getField L MinTen b, minuteOnes = getField L MinOne b,
     hourTens = getField L HourTen b, hourOnes = getField L HourOne b,
     dayHundreds = getField L DayHun b, dayTens = getField L DayTen b,
     dayOnes = getField L DayOne b, ut1Sign = getField L OffSign b,
     ut1Magnitude = getField L OffVal b, yearTens = getField L YearTen b,
     yearOnes = getField L YearOne b, dstStatus = getField L Dst b,
     leapYear = getField L Leapyear b, leapSecondPending = getField L Leapsec b \<rparr>"

section \<open>Notions used to state the properties\<close>

text \<open>The four duration bands of the specification, as sets of milliseconds.\<close>

fun band_spec :: "PulseClass \<Rightarrow> nat set" where
  "band_spec Invalid = {d. d < 100} \<union> {d. 900 \<le> d}"
| "band_spec Zero = {100..<400}"
| "band_spec One = {400..<700}"
| "band_spec Marker = {700..<900}"

text \<open>The class of a pulse given by its two edges, as \<open>processBit\<close> will see it.\<close>

definition pulseKind :: "pulse \<Rightarrow> PulseClass" where
  "pulseKind p = pulseClass (ucast (snd p - fst p))"


text \<open>The globals that \<open>processBit\<close> reads: a state with the two globals blanked that
  \<open>processBit\<close> only writes and the 250 ms branch of \<open>loop\<close> reads and writes, the held
  frame and its stamp.\<close>

definition decoder :: "clock \<Rightarrow> clock" where
  "decoder s = s\<lparr>lastFrameBuffer := 0, frameEndTime := 0\<rparr>"

text \<open>The time a pulse was low, in milliseconds: the difference of the two \<open>millis()\<close>
  readings in \<open>unsigned long\<close>, before \<open>processBit\<close> stores it in its
  \<open>unsigned int pulseWidth\<close>.\<close>

definition pulseMillis :: "pulse \<Rightarrow> nat" where
  "pulseMillis p = unat (snd p - fst p)"

text \<open>The ranges the data model gives for the members of a frame, and the frames that
  are a time of day on a day of the year (the last day is 365, or 366 when the leap-year
  flag is set).\<close>

definition inRange :: "TimeFrame \<Rightarrow> bool" where
  "inRange T = (minuteTens T \<le> 5 \<and> minuteOnes T \<le> 9 \<and> hourTens T \<le> 2 \<and>
     hourOnes T \<le> 9 \<and> dayHundreds T \<le> 3 \<and> dayTens T \<le> 9 \<and> dayOnes T \<le> 9 \<and>
     ut1Sign T < 8 \<and> ut1Magnitude T \<le> 9 \<and> yearTens T \<le> 9 \<and> yearOnes T \<le> 9 \<and>
     dstStatus T < 4 \<and> leapYear T < 2 \<and> leapSecondPending T < 2)"

definition dayOfYear :: "TimeFrame \<Rightarrow> nat" where
  "dayOfYear T = dayHundreds T * 100 + dayTens T * 10 + dayOnes T"

definition validFrame :: "TimeFrame \<Rightarrow> bool" where
  "validFrame T = (inRange T \<and> hourTens T * 10 + hourOnes T \<le> 23 \<and>
     1 \<le> dayOfYear T \<and> dayOfYear T \<le> 365 + leapYear T)"

text \<open>What holds of the decoder's globals between two calls of \<open>processBit\<close>.\<close>

definition clockInv :: "clock \<Rightarrow> bool" where
  "clockInv s = (\<not> frameError s \<and> 1 \<le> bitPosition s \<and> bitPosition s \<le> 60 \<and>
     0 \<le> framePosition s \<and> 0 \<le> bitError s \<and>
     framePosition s + bitError s < bitPosition s \<and>
     0 \<le> errIdx s \<and> errIdx s < 10 \<and> length (errors s) = 10)"


text \<open>Where the markers of a run of signals are, whether two of them are adjacent, and
  the bits the run leaves in the receive buffer when its first signal arrives at
  position \<open>p\<close>.\<close>

definition marks :: "signal list \<Rightarrow> bool list" where
  "marks xs = map (\<lambda>x. x = Mark) xs"

fun noPair :: "bool \<Rightarrow> bool list \<Rightarrow> bool" where
  "noPair w [] = True"
| "noPair w (m # ms) = (\<not> (w \<and> m) \<and> noPair m ms)"

fun placed :: "nat \<Rightarrow> signal list \<Rightarrow> 64 word" where
  "placed p [] = 0"
| "placed p (x # xs) =
     (if x = Weighted then push_bit (64 - p) 1 else 0) OR placed (Suc p) xs"

text \<open>Recording a list of frame outcomes, oldest first (\<open>True\<close> is an error).\<close>

definition logAll :: "bool list \<Rightarrow> clock \<Rightarrow> clock" where
  "logAll errs s = fold logFrameError errs s"

text \<open>Concrete inputs used below: a receive buffer holding 23:59 on day 365 of a year
  that is not a leap year; one holding 00:00 on day 1; and the simulator's frame with the
  minute digit 15.\<close>

definition newYearsEve :: "64 word" where
  "newYearsEve = wr DayOne 5 (wr DayTen 6 (wr DayHun 3
     (wr HourOne 3 (wr HourTen 2 (wr MinOne 9 (wr MinTen 5 0))))))"

definition firstMinute :: "64 word" where
  "firstMinute = wr DayOne 1 0"

definition badMinute :: TimeFrame where
  "badMinute = setupFrame\<lparr>minuteOnes := 15\<rparr>"

definition fullFrame :: clock where
  "fullFrame = initClock\<lparr>pulseStartTime := 60000, pulseEndTime := 60800, bitReceived := True,
     wasMark := True, framePosition := 6, bitPosition := 60, receiveBuffer := 5\<rparr>"

definition lastMinute :: "64 word" where
  "lastMinute = wr DayOne 1 (wr HourOne 3 (wr HourTen 2 (wr MinOne 9 (wr MinTen 5 0))))"

definition badRun :: clock where
  "badRun = rxPulses (onAir 0 (Mark # sendFrame (preset badMinute) @ [Mark])) initClock"


definition syncedClock :: clock where
  "syncedClock = initClock\<lparr>wasMark := True\<rparr>"



definition window :: "clock \<Rightarrow> int list" where
  "window s = drop (nat (errIdx s)) (errors s) @ take (nat (errIdx s)) (errors s)"

definition ringInv :: "clock \<Rightarrow> bool" where
  "ringInv s = (0 \<le> errIdx s \<and> errIdx s < 10 \<and> length (errors s) = 10)"

definition brimFrame :: clock where
  "brimFrame = initClock\<lparr>bitPosition := 60, framePosition := 5\<rparr>"

section \<open>Bit-fields\<close>

lemma getBits_less: "getBits off w b < 2 ^ w"
proof -
  have "unat (take_bit w (drop_bit off b)) = take_bit w (unat (drop_bit off b))"
    by (simp add: unsigned_take_bit_eq)
  then show ?thesis by (simp add: getBits_def take_bit_eq_mod)
qed

lemma setBits_other_word:
  assumes "off' + w' \<le> off \<or> off + w \<le> off'"
  shows "take_bit w (drop_bit off (setBits off' w' v b)) = take_bit w (drop_bit off b)"
proof (rule bit_eqI)
  fix n
  show "bit (take_bit w (drop_bit off (setBits off' w' v b))) n = bit (take_bit w (drop_bit off b)) n"
    using assms by (auto simp add: setBits_def bit_simps dest: bit_imp_le_length)
qed

lemma getBits_setBits_other:
  "off' + w' \<le> off \<or> off + w \<le> off' \<Longrightarrow> getBits off w (setBits off' w' v b) = getBits off w b"
  by (simp add: getBits_def setBits_other_word)

lemma setBits_same_word:
  assumes "off + w \<le> 64"
  shows "take_bit w (drop_bit off (setBits off w v b)) = take_bit w (of_nat v)"
proof (rule bit_eqI)
  fix n
  show "bit (take_bit w (drop_bit off (setBits off w v b))) n = bit (take_bit w (of_nat v :: 64 word)) n"
    using assms by (auto simp add: setBits_def bit_simps)
qed

lemma getBits_setBits_same:
  assumes "off + w \<le> 64"
  shows "getBits off w (setBits off w v b) = v mod 2 ^ w"
proof -
  have "w \<le> 64" using assms by simp
  have "unat (take_bit w (of_nat v :: 64 word)) = take_bit w (unat (of_nat v :: 64 word))"
    by (simp add: unsigned_take_bit_eq)
  also have "\<dots> = take_bit w (take_bit 64 v)"
    by (simp add: unat_of_nat take_bit_eq_mod)
  also have "\<dots> = take_bit w v" using \<open>w \<le> 64\<close> by (simp add: min_def)
  finally have "unat (take_bit w (of_nat v :: 64 word)) = v mod 2 ^ w"
    by (simp add: take_bit_eq_mod)
  then show ?thesis using assms by (simp only: getBits_def setBits_same_word)
qed

lemma fields_disjoint:
  "f \<noteq> g \<Longrightarrow> offsetOf L g + widthOf L g \<le> offsetOf L f \<or> offsetOf L f + widthOf L f \<le> offsetOf L g"
  by (induction L) auto

lemma field_fits: "offsetOf L f + widthOf L f \<le> sum_list (map snd L)"
  by (induction L) auto

lemma getField_setField_other:
  "f \<noteq> g \<Longrightarrow> getField L f (setField L g v b) = getField L f b"
  unfolding getField_def setField_def
  by (rule getBits_setBits_other) (rule fields_disjoint)

lemma getField_setField_same:
  assumes "sum_list (map snd L) \<le> 64"
  shows "getField L f (setField L f v b) = v mod 2 ^ widthOf L f"
  unfolding getField_def setField_def
  by (rule getBits_setBits_same) (use assms field_fits [of L f] in simp)

lemma clock_total: "sum_list (map snd wwvbBuffer_clock) = 64"
  by (simp add: wwvbBuffer_clock_def)

lemma sim_total: "sum_list (map snd wwvbBuffer_sim) = 64"
  by (simp add: wwvbBuffer_sim_def)

lemma rd_wr [simp]:
  "rd f (wr g v b) = (if f = g then v mod 2 ^ widthOf wwvbBuffer_clock f else rd f b)"
  by (simp add: getField_setField_other getField_setField_same clock_total)

lemma clock_widths [simp]:
  "widthOf wwvbBuffer_clock MinTen = 3" "widthOf wwvbBuffer_clock MinOne = 4"
  "widthOf wwvbBuffer_clock HourTen = 2" "widthOf wwvbBuffer_clock HourOne = 4"
  "widthOf wwvbBuffer_clock DayHun = 2" "widthOf wwvbBuffer_clock DayTen = 4"
  "widthOf wwvbBuffer_clock DayOne = 4" "widthOf wwvbBuffer_clock OffSign = 3"
  "widthOf wwvbBuffer_clock OffVal = 4" "widthOf wwvbBuffer_clock YearTen = 4"
  "widthOf wwvbBuffer_clock YearOne = 4" "widthOf wwvbBuffer_clock Dst = 2"
  "widthOf wwvbBuffer_clock Leapyear = 1" "widthOf wwvbBuffer_clock Leapsec = 1"
  by (simp_all add: wwvbBuffer_clock_def)


lemma rd_tickMinOne:
  "rd f (tickMinOne b) =
     (if f = MinOne then (if (rd MinOne b + 1) mod 16 = 10 then 0 else (rd MinOne b + 1) mod 16)
      else if f = MinTen \<and> (rd MinOne b + 1) mod 16 = 10 then (rd MinTen b + 1) mod 8
      else rd f b)"
  by (simp add: tickMinOne_def Let_def)

lemma rd_carryMinTen:
  "rd f (carryMinTen b) =
     (if rd MinTen b = 6 then
        (if f = MinTen then 0 else if f = HourOne then (rd HourOne b + 1) mod 16 else rd f b)
      else rd f b)"
  by (simp add: carryMinTen_def)

lemma rd_carryHourOne:
  "rd f (carryHourOne b) =
     (if rd HourOne b = 10 then
        (if f = HourOne then 0 else if f = HourTen then (rd HourTen b + 1) mod 4 else rd f b)
      else rd f b)"
  by (simp add: carryHourOne_def)

lemma rd_carryHour:
  "rd f (carryHour b) =
     (if rd HourTen b = 2 \<and> rd HourOne b = 4 then
        (if f = HourTen \<or> f = HourOne then 0
         else if f = DayOne then (rd DayOne b + 1) mod 16 else rd f b)
      else rd f b)"
  by (simp add: carryHour_def)

lemma rd_carryDayOne:
  "rd f (carryDayOne b) =
     (if rd DayOne b = 10 then
        (if f = DayOne then 0 else if f = DayTen then (rd DayTen b + 1) mod 16 else rd f b)
      else rd f b)"
  by (simp add: carryDayOne_def)

lemma rd_carryDayTen:
  "rd f (carryDayTen b) =
     (if rd DayTen b = 10 then
        (if f = DayTen then 0 else if f = DayHun then (rd DayHun b + 1) mod 4 else rd f b)
      else rd f b)"
  by (simp add: carryDayTen_def)

lemma rd_newYear:
  "rd f (newYear b) =
     (if rd DayHun b = 3 \<and> rd DayTen b = 6 \<and> rd DayOne b = 6 + rd Leapyear b then
        (if f = DayHun \<or> f = DayTen then 0 else if f = DayOne then 1
         else if f = YearOne then (rd YearOne b + 1) mod 16 else rd f b)
      else rd f b)"
  by (simp add: newYear_def)

lemma rd_carryYearOne:
  "rd f (carryYearOne b) =
     (if rd YearOne b = 10 then
        (if f = YearOne then 0 else if f = YearTen then (rd YearTen b + 1) mod 16 else rd f b)
      else rd f b)"
  by (simp add: carryYearOne_def)

lemma rd_carryYearTen:
  "rd f (carryYearTen b) = (if rd YearTen b = 10 \<and> f = YearTen then 0 else rd f b)"
  by (simp add: carryYearTen_def)

section \<open>The minute advance, step by step\<close>

lemma digits3:
  fixes h t u h' t' u' :: nat
  assumes "t \<le> 9" "u \<le> 9" "t' \<le> 9" "u' \<le> 9"
    and "h * 100 + t * 10 + u = h' * 100 + t' * 10 + u'"
  shows "h = h' \<and> t = t' \<and> u = u'"
proof -
  have eh: "h = h'" using assms by linarith
  have et: "t = t'" using assms eh by linarith
  have eu: "u = u'" using assms eh et by linarith
  show ?thesis using eh et eu by simp
qed

lemma advance_facts:
  fixes b :: "64 word"
  assumes m1: "rd MinOne b \<le> 9" and m10: "rd MinTen b \<le> 5"
    and h1: "rd HourOne b \<le> 9" and hh: "rd HourTen b * 10 + rd HourOne b \<le> 23"
    and d1: "rd DayOne b \<le> 9" and d10: "rd DayTen b \<le> 9"
    and dlo: "1 \<le> doy b" and dhi: "doy b \<le> 365 + rd Leapyear b"
    and y1: "rd YearOne b \<le> 9" and y10: "rd YearTen b \<le> 9"
  defines "M \<equiv> (rd HourTen b * 10 + rd HourOne b) * 60 + rd MinTen b * 10 + rd MinOne b"
  defines "Y \<equiv> rd YearTen b * 10 + rd YearOne b"
  defines "c \<equiv> incrementWwvbMinute b"
  shows "rd MinOne c \<le> 9 \<and> rd MinTen c \<le> 5 \<and> rd HourOne c \<le> 9 \<and>
         rd HourTen c * 10 + rd HourOne c \<le> 23 \<and> rd DayOne c \<le> 9 \<and> rd DayTen c \<le> 9 \<and>
         rd YearOne c \<le> 9 \<and> rd YearTen c \<le> 9"
    and "(rd HourTen c * 10 + rd HourOne c) * 60 + rd MinTen c * 10 + rd MinOne c = (M + 1) mod 1440"
    and "doy c = (if M = 1439 then (if doy b = 365 + rd Leapyear b then 1 else doy b + 1) else doy b)"
    and "rd YearTen c * 10 + rd YearOne c = (if M = 1439 \<and> doy b = 365 + rd Leapyear b then (Y + 1) mod 100 else Y)"
    and "f \<notin> {MinOne, MinTen, HourOne, HourTen, DayOne, DayTen, DayHun, YearOne, YearTen} \<Longrightarrow> rd f c = rd f b"
proof -
  have ly: "rd Leapyear b < 2"
    using getBits_less [of 9 1 b] by (simp add: getField_def wwvbBuffer_clock_def)
  have dh: "rd DayHun b \<le> 3"
    using getBits_less [of 41 2 b] by (simp add: getField_def wwvbBuffer_clock_def)
  define b1 where "b1 = tickMinOne b"
  define b2 where "b2 = carryMinTen b1"
  define b3 where "b3 = carryHourOne b2"
  define b4 where "b4 = carryHour b3"
  define b5 where "b5 = carryDayOne b4"
  define b6 where "b6 = carryDayTen b5"
  define b7 where "b7 = newYear b6"
  define b8 where "b8 = carryYearOne b7"
  define b9 where "b9 = carryYearTen b8"
  have c: "c = b9"
    by (simp add: c_def incrementWwvbMinute_def b1_def b2_def b3_def b4_def b5_def b6_def
        b7_def b8_def b9_def)
  \<comment> \<open>minutes\<close>
  have o1: "\<And>f. f \<noteq> MinOne \<Longrightarrow> f \<noteq> MinTen \<Longrightarrow> rd f b1 = rd f b"
    by (simp add: b1_def rd_tickMinOne)
  have s1: "rd MinOne b1 \<le> 9" "rd MinTen b1 \<le> 6"
    "rd MinTen b1 * 10 + rd MinOne b1 = rd MinTen b * 10 + rd MinOne b + 1"
    using m1 m10 by (auto simp add: b1_def rd_tickMinOne mod_Suc)
  have o2: "\<And>f. f \<noteq> MinTen \<Longrightarrow> f \<noteq> HourOne \<Longrightarrow> rd f b2 = rd f b1"
    by (simp add: b2_def rd_carryMinTen)
  have s2: "rd MinTen b2 \<le> 5" "rd HourOne b2 \<le> 10"
    "rd HourOne b2 * 60 + rd MinTen b2 * 10 + rd MinOne b2
       = rd HourOne b * 60 + rd MinTen b * 10 + rd MinOne b + 1"
    using s1 h1 o1 [of HourOne] by (auto simp add: b2_def rd_carryMinTen mod_Suc)
  have s2': "rd MinOne b2 \<le> 9" "rd HourTen b2 = rd HourTen b"
    using s1 o1 [of HourTen] o2 [of MinOne] o2 [of HourTen] by simp_all
  \<comment> \<open>hours\<close>
  have o3: "\<And>f. f \<noteq> HourOne \<Longrightarrow> f \<noteq> HourTen \<Longrightarrow> rd f b3 = rd f b2"
    by (simp add: b3_def rd_carryHourOne)
  have s3: "rd HourOne b3 \<le> 9" "rd HourTen b3 \<le> 2"
    "rd HourTen b3 * 10 + rd HourOne b3 = rd HourTen b * 10 + rd HourOne b2"
    using s2 s2' hh h1 m1 m10 by (auto simp add: b3_def rd_carryHourOne mod_Suc)
  have M3: "(rd HourTen b3 * 10 + rd HourOne b3) * 60 + rd MinTen b3 * 10 + rd MinOne b3 = M + 1"
    "rd MinTen b3 \<le> 5" "rd MinOne b3 \<le> 9"
    using s3 s2 s2' o3 [of MinTen] o3 [of MinOne] by (simp_all add: M_def)
  have Mle: "M \<le> 1439" using hh m10 m1 by (simp add: M_def)
  have h24a: "(rd HourTen b3 = 2 \<and> rd HourOne b3 = 4) = (rd HourTen b3 * 10 + rd HourOne b3 = 24)"
    using s3(1,2) by arith
  have h24b: "(rd HourTen b3 * 10 + rd HourOne b3 = 24) = (M = 1439)"
  proof -
    define H where "H = rd HourTen b3 * 10 + rd HourOne b3"
    define mm where "mm = rd MinTen b3 * 10 + rd MinOne b3"
    have e: "H * 60 + mm = M + 1" "mm \<le> 59"
      using M3 by (simp_all add: H_def mm_def)
    have a: "H = 24 \<Longrightarrow> M = 1439" using e Mle by linarith
    have "M = 1439 \<Longrightarrow> \<not> H \<le> 23" "M = 1439 \<Longrightarrow> \<not> 25 \<le> H"
      using e by linarith+
    then have "M = 1439 \<Longrightarrow> H = 24" by linarith
    with a have "(H = 24) = (M = 1439)" by blast
    then show ?thesis by (simp add: H_def)
  qed
  have h24: "(rd HourTen b3 = 2 \<and> rd HourOne b3 = 4) = (M = 1439)"
    using h24a h24b by simp
  have o4: "\<And>f. f \<noteq> HourOne \<Longrightarrow> f \<noteq> HourTen \<Longrightarrow> f \<noteq> DayOne \<Longrightarrow> rd f b4 = rd f b3"
    by (simp add: b4_def rd_carryHour)
  have s4: "rd HourOne b4 \<le> 9" "rd HourTen b4 * 10 + rd HourOne b4 \<le> 23"
    "(rd HourTen b4 * 10 + rd HourOne b4) * 60 + rd MinTen b4 * 10 + rd MinOne b4 = (M + 1) mod 1440"
    "rd MinTen b4 \<le> 5" "rd MinOne b4 \<le> 9"
    using M3 s3 Mle h24 o4 [of MinTen] o4 [of MinOne]
    by (auto simp add: b4_def rd_carryHour)
  \<comment> \<open>days\<close>
  have D3: "rd DayOne b3 = rd DayOne b" "rd DayTen b3 = rd DayTen b" "rd DayHun b3 = rd DayHun b"
    "rd Leapyear b3 = rd Leapyear b" "rd YearOne b3 = rd YearOne b" "rd YearTen b3 = rd YearTen b"
    by (simp_all add: o1 o2 o3)
  have s4d: "rd DayOne b4 = (if M = 1439 then rd DayOne b + 1 else rd DayOne b)"
    "rd DayTen b4 = rd DayTen b" "rd DayHun b4 = rd DayHun b"
    using D3 d1 h24 o4 [of DayTen] o4 [of DayHun] by (auto simp add: b4_def rd_carryHour)
  have o5: "\<And>f. f \<noteq> DayOne \<Longrightarrow> f \<noteq> DayTen \<Longrightarrow> rd f b5 = rd f b4"
    by (simp add: b5_def rd_carryDayOne)
  have s5: "rd DayOne b5 \<le> 9" "rd DayTen b5 \<le> 10"
    "rd DayTen b5 * 10 + rd DayOne b5 = rd DayTen b * 10 + rd DayOne b4"
    using s4d d1 d10 by (auto simp add: b5_def rd_carryDayOne mod_Suc)
  have o6: "\<And>f. f \<noteq> DayTen \<Longrightarrow> f \<noteq> DayHun \<Longrightarrow> rd f b6 = rd f b5"
    by (simp add: b6_def rd_carryDayTen)
  have dh2: "rd DayTen b5 = 10 \<Longrightarrow> rd DayHun b \<le> 2"
    using s5 s4d dhi ly d1 by (auto simp add: doy_def split: if_splits)
  have s6: "rd DayTen b6 \<le> 9" "rd DayOne b6 \<le> 9"
    "doy b6 = (if M = 1439 then doy b + 1 else doy b)"
    using s5 s4d dh dh2 o5 [of DayHun] o6 [of DayOne]
    by (auto simp add: b6_def rd_carryDayTen doy_def mod_Suc)
  have L6: "rd Leapyear b6 = rd Leapyear b" "rd YearOne b6 = rd YearOne b" "rd YearTen b6 = rd YearTen b"
    using D3 by (simp_all add: o4 o5 o6)
  have ny: "(rd DayHun b6 = 3 \<and> rd DayTen b6 = 6 \<and> rd DayOne b6 = 6 + rd Leapyear b6)
             = (doy b6 = 366 + rd Leapyear b)"
  proof -
    have "6 + rd Leapyear b \<le> 9" using ly by simp
    from digits3 [OF s6(1,2) _ this, of 6 "rd DayHun b6" 3]
    show ?thesis by (auto simp add: doy_def L6)
  qed
  have ny': "(doy b6 = 366 + rd Leapyear b) = (M = 1439 \<and> doy b = 365 + rd Leapyear b)"
    using s6(3) dhi by auto
  have o7: "\<And>f. f \<notin> {DayHun, DayTen, DayOne, YearOne} \<Longrightarrow> rd f b7 = rd f b6"
    by (simp add: b7_def rd_newYear)
  have s7: "rd DayTen b7 \<le> 9" "rd DayOne b7 \<le> 9"
    "doy b7 = (if M = 1439 then (if doy b = 365 + rd Leapyear b then 1 else doy b + 1) else doy b)"
    "rd YearOne b7 = (if M = 1439 \<and> doy b = 365 + rd Leapyear b then rd YearOne b + 1 else rd YearOne b)"
    "rd YearTen b7 = rd YearTen b"
    using s6 L6 y1 ny ny' unfolding b7_def rd_newYear doy_def
    by (simp_all add: rd_newYear)
  \<comment> \<open>years\<close>
  have o8: "\<And>f. f \<noteq> YearOne \<Longrightarrow> f \<noteq> YearTen \<Longrightarrow> rd f b8 = rd f b7"
    by (simp add: b8_def rd_carryYearOne)
  have s8: "rd YearOne b8 \<le> 9" "rd YearTen b8 \<le> 10"
    "rd YearTen b8 * 10 + rd YearOne b8 = rd YearTen b * 10 + rd YearOne b7"
    using s7(4,5) y1 y10 by (auto simp add: b8_def rd_carryYearOne mod_Suc)
  have o9: "\<And>f. f \<noteq> YearTen \<Longrightarrow> rd f b9 = rd f b8"
    by (simp add: b9_def rd_carryYearTen)
  have s9: "rd YearTen b9 \<le> 9" "rd YearOne b9 \<le> 9"
    "rd YearTen b9 * 10 + rd YearOne b9
       = (if M = 1439 \<and> doy b = 365 + rd Leapyear b then (Y + 1) mod 100 else Y)"
  proof -
    define Y7 where "Y7 = rd YearTen b * 10 + rd YearOne b7"
    have Y7: "Y7 = (if M = 1439 \<and> doy b = 365 + rd Leapyear b then Y + 1 else Y)" "Y \<le> 99"
      using s7(4) y1 y10 by (auto simp add: Y7_def Y_def)
    have Y8: "rd YearTen b8 * 10 + rd YearOne b8 = Y7" "Y7 \<le> 100"
      using s8(3) Y7 by (auto simp add: Y7_def)
    have top: "rd YearTen b8 = 10 \<Longrightarrow> rd YearOne b8 = 0 \<and> Y7 = 100"
      using Y8 by linarith
    have low: "rd YearTen b8 \<noteq> 10 \<Longrightarrow> Y7 \<le> 99"
      using Y8(1) s8(1,2) by linarith
    show "rd YearTen b9 \<le> 9" using s8(2) by (auto simp add: b9_def rd_carryYearTen)
    show "rd YearOne b9 \<le> 9" using s8(1) by (simp add: b9_def rd_carryYearTen)
    have "rd YearTen b9 * 10 + rd YearOne b9 = Y7 mod 100"
      using top low Y8(1) by (auto simp add: b9_def rd_carryYearTen)
    then show "rd YearTen b9 * 10 + rd YearOne b9
       = (if M = 1439 \<and> doy b = 365 + rd Leapyear b then (Y + 1) mod 100 else Y)"
      using Y7 by auto
  qed
  have late: "\<And>f. f \<in> {MinOne, MinTen, HourOne, HourTen} \<Longrightarrow> rd f b9 = rd f b4"
    by (auto simp add: o5 o6 o7 o8 o9)
  have day: "\<And>f. f \<in> {DayOne, DayTen, DayHun} \<Longrightarrow> rd f b9 = rd f b7"
    by (auto simp add: o8 o9)
  show "rd MinOne c \<le> 9 \<and> rd MinTen c \<le> 5 \<and> rd HourOne c \<le> 9 \<and>
         rd HourTen c * 10 + rd HourOne c \<le> 23 \<and> rd DayOne c \<le> 9 \<and> rd DayTen c \<le> 9 \<and>
         rd YearOne c \<le> 9 \<and> rd YearTen c \<le> 9"
    using s4 s7(1,2) s9(1,2) by (simp add: c late day)
  show "(rd HourTen c * 10 + rd HourOne c) * 60 + rd MinTen c * 10 + rd MinOne c = (M + 1) mod 1440"
    using s4(3) by (simp add: c late)
  show "doy c = (if M = 1439 then (if doy b = 365 + rd Leapyear b then 1 else doy b + 1) else doy b)"
    using s7(3) by (simp add: c doy_def day)
  show "rd YearTen c * 10 + rd YearOne c = (if M = 1439 \<and> doy b = 365 + rd Leapyear b then (Y + 1) mod 100 else Y)"
    using s9(3) by (simp add: c)
  show "rd f c = rd f b"
    if "f \<notin> {MinOne, MinTen, HourOne, HourTen, DayOne, DayTen, DayHun, YearOne, YearTen}"
    using that by (simp add: c o1 o2 o3 o4 o5 o6 o7 o8 o9)
qed

section \<open>One pulse\<close>

lemma rxPulse_processBit:
  "rxPulse p s = processBit (s\<lparr>pulseStartTime := fst p, pulseEndTime := snd p, bitReceived := True\<rparr>)"
  by (simp add: rxPulse_def loop_def wwvbChange_def Let_def)

lemma processBit_class:
  "processBit s =
     frameCheck (case pulseClass (pulseWidthOf s) of
        Invalid \<Rightarrow> invalidPulse (s\<lparr>bitReceived := False\<rparr>)
      | Zero \<Rightarrow> (buffer 0 (s\<lparr>bitReceived := False\<rparr>))\<lparr>wasMark := False\<rparr>
      | One \<Rightarrow> (buffer 1 (s\<lparr>bitReceived := False\<rparr>))\<lparr>wasMark := False\<rparr>
      | Marker \<Rightarrow> markerPulse (s\<lparr>bitReceived := False\<rparr>))"
  by (simp add: processBit_def pulseClass_def Let_def pulseWidthOf_def)

lemma processBit_invalid:
  assumes "pulseClass (pulseWidthOf s) = Invalid" "\<not> frameError s" "bitPosition s < 60"
  shows "processBit s = s\<lparr>bitReceived := False, lastBit := CHR ''X'',
           bitPosition := bitPosition s + 1, bitError := bitError s + 1, wasMark := False\<rparr>"
  using assms by (simp add: processBit_class invalidPulse_def buffer_def frameCheck_def Let_def)

lemma processBit_zero:
  assumes "pulseClass (pulseWidthOf s) = Zero" "\<not> frameError s" "bitPosition s < 60"
  shows "processBit s = s\<lparr>bitReceived := False, lastBit := CHR ''0'',
           bitPosition := bitPosition s + 1, wasMark := False\<rparr>"
  using assms by (simp add: processBit_class buffer_def frameCheck_def Let_def)

lemma processBit_one:
  assumes "pulseClass (pulseWidthOf s) = One" "\<not> frameError s" "bitPosition s < 60"
  shows "processBit s = s\<lparr>bitReceived := False, lastBit := CHR ''1'',
           receiveBuffer := receiveBuffer s OR push_bit (nat (64 - bitPosition s)) 1,
           bitPosition := bitPosition s + 1, wasMark := False\<rparr>"
  using assms by (simp add: processBit_class buffer_def frameCheck_def Let_def)

lemma processBit_marker:
  assumes "pulseClass (pulseWidthOf s) = Marker" "\<not> frameError s" "bitPosition s < 60" "\<not> wasMark s"
  shows "processBit s = s\<lparr>bitReceived := False, lastBit := CHR ''M'',
           framePosition := framePosition s + 1,
           bitPosition := bitPosition s + 1, wasMark := True\<rparr>"
  using assms by (simp add: processBit_class markerPulse_def buffer_def frameCheck_def Let_def)

lemma processBit_boundary:
  assumes "pulseClass (pulseWidthOf s) = Marker" "\<not> frameError s" "wasMark s"
  shows "processBit s = resetFrame
     (if framePosition s = 6 \<and> bitPosition s = 60 \<and> bitError s = 0
      then logFrameError False (s\<lparr>bitReceived := False, lastBit := CHR ''*'',
             frameEndTime := pulseStartTime s, lastFrameBuffer := receiveBuffer s\<rparr>)
      else logFrameError True (s\<lparr>bitReceived := False, lastBit := CHR ''*''\<rparr>))"
  using assms by (simp add: processBit_class markerPulse_def frameCheck_def Let_def resetFrame_def logFrameError_def)

lemma processBit_overflow:
  assumes "\<not> (pulseClass (pulseWidthOf s) = Marker \<and> wasMark s)" "\<not> frameError s" "60 \<le> bitPosition s"
  shows "processBit s = resetFrame (logFrameError True (s\<lparr>bitReceived := False, lastBit := lastBit (processBit s)\<rparr>))"
  using assms by (cases "pulseClass (pulseWidthOf s)") (simp_all add: processBit_class markerPulse_def invalidPulse_def buffer_def frameCheck_def Let_def resetFrame_def logFrameError_def)

section \<open>Counters between pulses\<close>

lemma rxPulses_Nil: "rxPulses [] s = s"
  by (simp add: rxPulses_def)

lemma rxPulses_Cons: "rxPulses (p # ps) s = rxPulses ps (rxPulse p s)"
  by (simp add: rxPulses_def)

lemma rxPulses_append: "rxPulses (ps @ qs) s = rxPulses qs (rxPulses ps s)"
  by (simp add: rxPulses_def)

lemma clockInv_times:
  "clockInv (s\<lparr>pulseStartTime := a, pulseEndTime := b, bitReceived := c\<rparr>) = clockInv s"
  by (simp add: clockInv_def)

lemma processBit_inv:
  assumes "clockInv s"
  shows "clockInv (processBit s)"
proof (cases "pulseClass (pulseWidthOf s) = Marker \<and> wasMark s")
  case True
  then show ?thesis using assms processBit_boundary [of s]
    by (auto simp add: clockInv_def resetFrame_def logFrameError_def Let_def)
next
  case nb: False
  show ?thesis
  proof (cases "bitPosition s < 60")
    case False
    then have "60 \<le> bitPosition s" by simp
    from processBit_overflow [OF nb _ this] assms
    have "processBit s = resetFrame (logFrameError True (s\<lparr>bitReceived := False, lastBit := lastBit (processBit s)\<rparr>))"
      by (simp add: clockInv_def)
    then have "clockInv (processBit s) = clockInv (resetFrame (logFrameError True (s\<lparr>bitReceived := False, lastBit := lastBit (processBit s)\<rparr>)))"
      by simp
    then show ?thesis using assms
      by (auto simp add: clockInv_def resetFrame_def logFrameError_def Let_def)
  next
    case True
    show ?thesis
    proof (cases "pulseClass (pulseWidthOf s)")
      case Marker
      then show ?thesis using assms True nb processBit_marker [of s]
        by (simp add: clockInv_def)
    next
      case Zero
      then show ?thesis using assms True processBit_zero [of s]
        by (simp add: clockInv_def)
    next
      case One
      then show ?thesis using assms True processBit_one [of s]
        by (simp add: clockInv_def)
    next
      case Invalid
      then show ?thesis using assms True processBit_invalid [of s]
        by (simp add: clockInv_def)
    qed
  qed
qed

lemma rxPulse_inv: "clockInv s \<Longrightarrow> clockInv (rxPulse p s)"
  unfolding rxPulse_processBit by (rule processBit_inv) (simp add: clockInv_times)

lemma rxPulses_inv: "clockInv s \<Longrightarrow> clockInv (rxPulses ps s)"
  by (induction ps arbitrary: s) (simp_all add: rxPulses_Nil rxPulses_Cons rxPulse_inv)

lemma initClock_inv: "clockInv initClock"
  by (simp add: clockInv_def initClock_def)

lemma reachable_bounds:
  "clockInv (rxPulses ps initClock)"
  by (rule rxPulses_inv) (rule initClock_inv)




section \<open>Receiving what the simulator sends\<close>

lemma signal_class:
  "pulseClass (ucast ((t + lowMillis x) - t :: 32 word)) =
     (case x of Mark \<Rightarrow> Marker | Weighted \<Rightarrow> One | Unweighted \<Rightarrow> Zero)"
  by (cases x) (simp_all add: pulseClass_def)

lemma rxSignal:
  assumes "\<not> frameError s" "bitPosition s < 60" "\<not> (wasMark s \<and> x = Mark)"
  shows "rxPulse (t, t + lowMillis x) s =
     s\<lparr>pulseStartTime := t, pulseEndTime := t + lowMillis x, bitReceived := False,
       lastBit := (case x of Mark \<Rightarrow> CHR ''M'' | Weighted \<Rightarrow> CHR ''1'' | Unweighted \<Rightarrow> CHR ''0''),
       framePosition := (if x = Mark then framePosition s + 1 else framePosition s),
       receiveBuffer := receiveBuffer s OR
          (if x = Weighted then push_bit (nat (64 - bitPosition s)) 1 else 0),
       bitPosition := bitPosition s + 1, wasMark := (x = Mark)\<rparr>"
proof -
  let ?s = "s\<lparr>pulseStartTime := t, pulseEndTime := t + lowMillis x, bitReceived := True\<rparr>"
  have c: "pulseClass (pulseWidthOf ?s) = (case x of Mark \<Rightarrow> Marker | Weighted \<Rightarrow> One | Unweighted \<Rightarrow> Zero)"
    using signal_class [of t x] by (simp add: pulseWidthOf_def)
  show ?thesis
  proof (cases x)
    case Mark
    then show ?thesis using assms c processBit_marker [of ?s]
      by (simp add: rxPulse_processBit)
  next
    case Weighted
    then show ?thesis using assms c processBit_one [of ?s]
      by (simp add: rxPulse_processBit)
  next
    case Unweighted
    then show ?thesis using assms c processBit_zero [of ?s]
      by (simp add: rxPulse_processBit)
  qed
qed

lemma rx_data_run:
  assumes "\<not> frameError s" "1 \<le> bitPosition s" "bitPosition s + int (length xs) \<le> 60"
    "noPair (wasMark s) (marks xs)"
  shows "bitPosition (rxPulses (onAir t xs) s) = bitPosition s + int (length xs) \<and>
    framePosition (rxPulses (onAir t xs) s) = framePosition s + int (length (filter id (marks xs))) \<and>
    bitError (rxPulses (onAir t xs) s) = bitError s \<and>
    wasMark (rxPulses (onAir t xs) s) = (if xs = [] then wasMark s else last (marks xs)) \<and>
    receiveBuffer (rxPulses (onAir t xs) s) = receiveBuffer s OR placed (nat (bitPosition s)) xs \<and>
    lastFrameBuffer (rxPulses (onAir t xs) s) = lastFrameBuffer s \<and>
    frameEndTime (rxPulses (onAir t xs) s) = frameEndTime s \<and>
    errors (rxPulses (onAir t xs) s) = errors s \<and>
    errIdx (rxPulses (onAir t xs) s) = errIdx s \<and>
    \<not> frameError (rxPulses (onAir t xs) s)"
  using assms
proof (induction xs arbitrary: s t)
  case Nil
  then show ?case by (simp add: rxPulses_def marks_def)
next
  case (Cons x xs)
  define s1 where "s1 = rxPulse (t, t + lowMillis x) s"
  have step: "s1 = s\<lparr>pulseStartTime := t, pulseEndTime := t + lowMillis x, bitReceived := False,
       lastBit := (case x of Mark \<Rightarrow> CHR ''M'' | Weighted \<Rightarrow> CHR ''1'' | Unweighted \<Rightarrow> CHR ''0''),
       framePosition := (if x = Mark then framePosition s + 1 else framePosition s),
       receiveBuffer := receiveBuffer s OR
          (if x = Weighted then push_bit (nat (64 - bitPosition s)) 1 else 0),
       bitPosition := bitPosition s + 1, wasMark := (x = Mark)\<rparr>"
    unfolding s1_def using Cons.prems by (intro rxSignal) (auto simp add: marks_def)
  have run: "rxPulses (onAir t (x # xs)) s = rxPulses (onAir (t + lowMillis x + highMillis x) xs) s1"
    by (simp add: rxPulses_def s1_def)
  have nat: "nat (bitPosition s + 1) = Suc (nat (bitPosition s))"
    "nat (64 - bitPosition s) = 64 - nat (bitPosition s)"
    using Cons.prems by auto
  have f: "bitPosition s1 = bitPosition s + 1"
    "framePosition s1 = framePosition s + (if x = Mark then 1 else 0)"
    "bitError s1 = bitError s" "wasMark s1 = (x = Mark)"
    "receiveBuffer s1 = receiveBuffer s OR (if x = Weighted then push_bit (64 - nat (bitPosition s)) 1 else 0)"
    "lastFrameBuffer s1 = lastFrameBuffer s" "frameEndTime s1 = frameEndTime s"
    "errors s1 = errors s" "errIdx s1 = errIdx s" "\<not> frameError s1"
    using Cons.prems(1) by (simp_all add: step nat)
  have pre: "\<not> frameError s1" "1 \<le> bitPosition s1" "bitPosition s1 + int (length xs) \<le> 60"
    "noPair (wasMark s1) (marks xs)"
    using Cons.prems by (simp_all add: f marks_def)
  from Cons.IH [OF pre, of "t + lowMillis x + highMillis x"]
  show ?case unfolding run f nat
    by (simp add: ac_simps marks_def)
qed

lemma bit_placed:
  "1 \<le> p \<Longrightarrow> p + length xs \<le> 65 \<Longrightarrow>
     bit (placed p xs) n = (\<exists>j<length xs. xs ! j = Weighted \<and> n + p + j = 64)"
proof (induction xs arbitrary: p)
  case Nil
  then show ?case by simp
next
  case (Cons x xs)
  have "(\<exists>j<length (x # xs). (x # xs) ! j = Weighted \<and> n + p + j = 64)
      = ((x = Weighted \<and> n + p = 64) \<or> (\<exists>j<length xs. xs ! j = Weighted \<and> n + Suc p + j = 64))"
    by (auto simp add: less_Suc_eq_0_disj)
  moreover have "bit (if x = Weighted then push_bit (64 - p) 1 else 0 :: 64 word) n = (x = Weighted \<and> n + p = 64)"
    using Cons.prems by (auto simp add: bit_simps)
  ultimately show ?case using Cons.IH [of "Suc p"] Cons.prems by (simp add: bit_simps)
qed

lemma length_sendBits: "length (sendBits tb pos js) = length js"
  by (induction js arbitrary: pos) (simp_all add: Let_def)

lemma sendBits_nth:
  "j < length js \<Longrightarrow> sendBits tb pos js ! j =
     (if pos + j = 0 \<or> (pos + j + 1) mod 10 = 0 then Mark
      else if bit tb (js ! j) then Weighted else Unweighted)"
proof (induction js arbitrary: pos j)
  case Nil
  then show ?case by simp
next
  case (Cons i js)
  show ?case
  proof (cases j)
    case 0
    then show ?thesis by (simp add: Let_def bit_iff_and_push_bit_not_eq_0)
  next
    case (Suc k)
    then show ?thesis using Cons.IH [of k "pos + 1"] Cons.prems by (simp add: Let_def)
  qed
qed

lemma marks_sendBits:
  "marks (sendBits tb pos js) = map (\<lambda>k. k = 0 \<or> (k + 1) mod 10 = 0) [pos..<pos + length js]"
proof (induction js arbitrary: pos)
  case Nil
  then show ?case by (simp add: marks_def)
next
  case (Cons i js)
  have "[pos..<pos + length (i # js)] = pos # [pos + 1..<pos + 1 + length js]"
    by (simp add: upt_rec)
  then show ?case using Cons.IH [of "pos + 1"] by (simp add: marks_def Let_def)
qed

lemma length_sendFrame: "length (sendFrame tb) = 60"
  by (simp add: sendFrame_def length_sendBits del: upt_rec_numeral)

lemma sendFrame_nth:
  assumes "j < 60"
  shows "sendFrame tb ! j =
     (if j = 0 \<or> (j + 1) mod 10 = 0 then Mark
      else if bit tb (63 - j) then Weighted else Unweighted)"
proof -
  have "rev [4..<64] ! j = 63 - j"
    using assms by (simp add: rev_nth del: upt_rec_numeral)
  then show ?thesis
    using assms sendBits_nth [of j "rev [4..<64]" tb 0]
    by (simp add: sendFrame_def del: upt_rec_numeral)
qed

lemma marks_sendFrame:
  "marks (sendFrame tb) = map (\<lambda>k. k = 0 \<or> (k + 1) mod 10 = 0) [0..<60]"
  by (simp add: sendFrame_def marks_sendBits del: upt_rec_numeral)

lemma sendFrame_split: "sendFrame tb = Mark # tl (sendFrame tb)"
proof -
  have "sendFrame tb \<noteq> []" using length_sendFrame [of tb] by auto
  moreover have "hd (sendFrame tb) = Mark"
    using sendFrame_nth [of 0 tb] \<open>sendFrame tb \<noteq> []\<close> by (simp add: hd_conv_nth)
  ultimately show ?thesis by (cases "sendFrame tb") simp_all
qed

lemma marks_tl_sendFrame:
  "marks (tl (sendFrame tb)) = map (\<lambda>k. k = 0 \<or> (k + 1) mod 10 = 0) [1..<60]"
proof -
  have "marks (tl (sendFrame tb)) = tl (marks (sendFrame tb))"
    by (simp add: marks_def map_tl)
  also have "\<dots> = tl (map (\<lambda>k. k = 0 \<or> (k + 1) mod 10 = 0) [0..<60])"
    by (simp only: marks_sendFrame)
  also have "\<dots> = map (\<lambda>k. k = 0 \<or> (k + 1) mod 10 = 0) [1..<60]"
    by code_simp
  finally show ?thesis .
qed

lemma frame_shape:
  "noPair False (map (\<lambda>k. k = 0 \<or> (k + 1) mod 10 = 0) [1..<60])"
  "length (filter id (map (\<lambda>k. k = 0 \<or> (k + 1) mod 10 = 0) [1..<60])) = 6"
  "last (map (\<lambda>k. k = 0 \<or> (k + 1) mod 10 = 0) [1..<60])"
  by code_simp+

lemma marker_index:
  fixes k :: nat
  assumes "4 \<le> k" "k \<le> 62"
  shows "((64 - k) mod 10 = 0) = (k \<in> {4, 14, 24, 34, 44, 54})"
proof -
  have "\<forall>k\<in>set [4..<63]. ((64 - k) mod 10 = 0) = (k \<in> set [4, 14, 24, 34, 44, 54 :: nat])"
    by code_simp
  then show ?thesis using assms by (simp del: upt_rec_numeral)
qed

lemma bit_received:
  "bit (placed 1 (tl (sendFrame tb))) n =
     (5 \<le> n \<and> n < 64 \<and> (65 - n) mod 10 \<noteq> 0 \<and> bit tb (n - 1))"
proof -
  let ?xs = "tl (sendFrame tb)"
  have len: "length ?xs = 59" by (simp add: length_sendFrame)
  have nth: "?xs ! j = (if (j + 2) mod 10 = 0 then Mark
                        else if bit tb (62 - j) then Weighted else Unweighted)" if "j < 59" for j
    using that sendFrame_nth [of "Suc j" tb] by (simp add: nth_tl length_sendFrame)
  have "bit (placed 1 ?xs) n = (\<exists>j<59. ?xs ! j = Weighted \<and> n + 1 + j = 64)"
    using bit_placed [of 1 ?xs n] len by simp
  also have "\<dots> = (\<exists>j<59. (j + 2) mod 10 \<noteq> 0 \<and> bit tb (62 - j) \<and> n + 1 + j = 64)"
  proof -
    have eq: "(?xs ! j = Weighted) = ((j + 2) mod 10 \<noteq> 0 \<and> bit tb (62 - j))" if "j < 59" for j
      using nth [OF that] by simp
    show ?thesis by (simp add: eq cong: conj_cong)
  qed
  also have "\<dots> = (5 \<le> n \<and> n < 64 \<and> (65 - n) mod 10 \<noteq> 0 \<and> bit tb (n - 1))"
  proof
    assume "\<exists>j<59. (j + 2) mod 10 \<noteq> 0 \<and> bit tb (62 - j) \<and> n + 1 + j = 64"
    then obtain j where j: "j < 59" "(j + 2) mod 10 \<noteq> 0" "bit tb (62 - j)" "n + 1 + j = 64"
      by blast
    then have "j + 2 = 65 - n" "62 - j = n - 1" "5 \<le> n" "n < 64" by arith+
    then show "5 \<le> n \<and> n < 64 \<and> (65 - n) mod 10 \<noteq> 0 \<and> bit tb (n - 1)"
      using j(2,3) by simp
  next
    assume a: "5 \<le> n \<and> n < 64 \<and> (65 - n) mod 10 \<noteq> 0 \<and> bit tb (n - 1)"
    define j where "j = 63 - n"
    have "j + 2 = 65 - n" "62 - j = n - 1" "j < 59" "n + 1 + j = 64"
      using a unfolding j_def by arith+
    then have "j < 59 \<and> (j + 2) mod 10 \<noteq> 0 \<and> bit tb (62 - j) \<and> n + 1 + j = 64"
      using a by simp
    then show "\<exists>j<59. (j + 2) mod 10 \<noteq> 0 \<and> bit tb (62 - j) \<and> n + 1 + j = 64"
      by blast
  qed
  finally show ?thesis .
qed

lemma received_field:
  assumes "4 \<le> off" "off + w \<le> 63" "\<forall>k. off \<le> k \<and> k < off + w \<longrightarrow> k \<notin> {4, 14, 24, 34, 44, 54}"
  shows "getBits (Suc off) w (placed 1 (tl (sendFrame tb))) = getBits off w tb"
proof -
  have "take_bit w (drop_bit (Suc off) (placed 1 (tl (sendFrame tb))))
      = take_bit w (drop_bit off tb)"
  proof (rule bit_eqI)
    fix n
    show "bit (take_bit w (drop_bit (Suc off) (placed 1 (tl (sendFrame tb))))) n
        = bit (take_bit w (drop_bit off tb)) n"
    proof (cases "n < w")
      case False
      then show ?thesis by (simp add: bit_simps)
    next
      case True
      then have k: "4 \<le> off + n" "off + n \<le> 62" "off + n \<notin> {4, 14, 24, 34, 44, 54}"
        using assms by auto
      have m: "(64 - (off + n)) mod 10 \<noteq> 0" using marker_index [OF k(1,2)] k(3) by simp
      have "bit (take_bit w (drop_bit (Suc off) (placed 1 (tl (sendFrame tb))))) n
          = bit (placed 1 (tl (sendFrame tb))) (Suc (off + n))"
        using True by (simp only: bit_take_bit_iff bit_drop_bit_eq) simp
      also have "\<dots> = bit tb (off + n)"
        unfolding bit_received using m k(1,2) by simp
      also have "\<dots> = bit (take_bit w (drop_bit off tb)) n"
        using True by (simp only: bit_take_bit_iff bit_drop_bit_eq) simp
      finally show ?thesis .
    qed
  qed
  then show ?thesis by (simp add: getBits_def)
qed

lemma clock_fields:
  "getField wwvbBuffer_clock MinTen b = getBits 61 3 b"
  "getField wwvbBuffer_clock MinOne b = getBits 56 4 b"
  "getField wwvbBuffer_clock HourTen b = getBits 51 2 b"
  "getField wwvbBuffer_clock HourOne b = getBits 46 4 b"
  "getField wwvbBuffer_clock DayHun b = getBits 41 2 b"
  "getField wwvbBuffer_clock DayTen b = getBits 36 4 b"
  "getField wwvbBuffer_clock DayOne b = getBits 31 4 b"
  "getField wwvbBuffer_clock OffSign b = getBits 26 3 b"
  "getField wwvbBuffer_clock OffVal b = getBits 21 4 b"
  "getField wwvbBuffer_clock YearTen b = getBits 16 4 b"
  "getField wwvbBuffer_clock YearOne b = getBits 11 4 b"
  "getField wwvbBuffer_clock Leapyear b = getBits 9 1 b"
  "getField wwvbBuffer_clock Leapsec b = getBits 8 1 b"
  "getField wwvbBuffer_clock Dst b = getBits 6 2 b"
  by (simp_all add: getField_def wwvbBuffer_clock_def)

lemma sim_fields:
  "getField wwvbBuffer_sim MinTen b = getBits 60 3 b"
  "getField wwvbBuffer_sim MinOne b = getBits 55 4 b"
  "getField wwvbBuffer_sim HourTen b = getBits 50 2 b"
  "getField wwvbBuffer_sim HourOne b = getBits 45 4 b"
  "getField wwvbBuffer_sim DayHun b = getBits 40 2 b"
  "getField wwvbBuffer_sim DayTen b = getBits 35 4 b"
  "getField wwvbBuffer_sim DayOne b = getBits 30 4 b"
  "getField wwvbBuffer_sim OffSign b = getBits 25 3 b"
  "getField wwvbBuffer_sim OffVal b = getBits 20 4 b"
  "getField wwvbBuffer_sim YearTen b = getBits 15 4 b"
  "getField wwvbBuffer_sim YearOne b = getBits 10 4 b"
  "getField wwvbBuffer_sim Leapyear b = getBits 8 1 b"
  "getField wwvbBuffer_sim Leapsec b = getBits 7 1 b"
  "getField wwvbBuffer_sim Dst b = getBits 5 2 b"
  by (simp_all add: getField_def wwvbBuffer_sim_def)

lemma received_frame:
  "frameOf wwvbBuffer_clock (placed 1 (tl (sendFrame tb))) = frameOf wwvbBuffer_sim tb"
  unfolding frameOf_def clock_fields sim_fields
  using received_field [of 60 3 tb] received_field [of 55 4 tb] received_field [of 50 2 tb]
    received_field [of 45 4 tb] received_field [of 40 2 tb] received_field [of 35 4 tb]
    received_field [of 30 4 tb] received_field [of 25 3 tb] received_field [of 20 4 tb]
    received_field [of 15 4 tb] received_field [of 10 4 tb] received_field [of 8 1 tb]
    received_field [of 7 1 tb] received_field [of 5 2 tb]
  by simp

lemma sim_widths:
  "widthOf wwvbBuffer_sim MinTen = 3" "widthOf wwvbBuffer_sim MinOne = 4"
  "widthOf wwvbBuffer_sim HourTen = 2" "widthOf wwvbBuffer_sim HourOne = 4"
  "widthOf wwvbBuffer_sim DayHun = 2" "widthOf wwvbBuffer_sim DayTen = 4"
  "widthOf wwvbBuffer_sim DayOne = 4" "widthOf wwvbBuffer_sim OffSign = 3"
  "widthOf wwvbBuffer_sim OffVal = 4" "widthOf wwvbBuffer_sim YearTen = 4"
  "widthOf wwvbBuffer_sim YearOne = 4" "widthOf wwvbBuffer_sim Dst = 2"
  "widthOf wwvbBuffer_sim Leapyear = 1" "widthOf wwvbBuffer_sim Leapsec = 1"
  by (simp_all add: wwvbBuffer_sim_def)

lemma sim_get_set:
  "getField wwvbBuffer_sim f (setField wwvbBuffer_sim g v b)
     = (if f = g then v mod 2 ^ widthOf wwvbBuffer_sim f else getField wwvbBuffer_sim f b)"
  by (simp add: getField_setField_other getField_setField_same sim_total)


lemma period: "lowMillis x + highMillis x = 1000"
  by (cases x) simp_all

lemma onAir_append:
  "onAir t (xs @ ys) = onAir t xs @ onAir (t + 1000 * of_nat (length xs)) ys"
proof (induction xs arbitrary: t)
  case Nil
  then show ?case by simp
next
  case (Cons x xs)
  have "t + lowMillis x + highMillis x = t + 1000"
    using period [of x] by (simp add: add.assoc)
  then show ?case using Cons.IH [of "t + 1000"] by (simp add: algebra_simps)
qed

lemma rx_boundary:
  fixes s :: clock and t :: "32 word"
  assumes "wasMark s" "\<not> frameError s"
  defines "ok \<equiv> framePosition s = 6 \<and> bitPosition s = 60 \<and> bitError s = 0"
  defines "s' \<equiv> rxPulse (t, t + lowMillis Mark) s"
  shows "framePosition s' = 0" "bitPosition s' = 1" "bitError s' = 0" "\<not> wasMark s'"
    "receiveBuffer s' = 0" "\<not> frameError s'"
    "lastFrameBuffer s' = (if ok then receiveBuffer s else lastFrameBuffer s)"
    "frameEndTime s' = (if ok then t else frameEndTime s)"
    "errors s' = (errors s)[nat (errIdx s) := (if ok then 0 else 1)]"
    "errIdx s' = (if errIdx s + 1 \<ge> 10 then 0 else errIdx s + 1)"
proof -
  let ?s = "s\<lparr>pulseStartTime := t, pulseEndTime := t + lowMillis Mark, bitReceived := True\<rparr>"
  have c: "pulseClass (pulseWidthOf ?s) = Marker"
    using signal_class [of t Mark] by (simp add: pulseWidthOf_def)
  have eq: "s' = processBit ?s" by (simp add: s'_def rxPulse_processBit)
  show "framePosition s' = 0" "bitPosition s' = 1" "bitError s' = 0" "\<not> wasMark s'"
    "receiveBuffer s' = 0" "\<not> frameError s'"
    "lastFrameBuffer s' = (if ok then receiveBuffer s else lastFrameBuffer s)"
    "frameEndTime s' = (if ok then t else frameEndTime s)"
    "errors s' = (errors s)[nat (errIdx s) := (if ok then 0 else 1)]"
    "errIdx s' = (if errIdx s + 1 \<ge> 10 then 0 else errIdx s + 1)"
    unfolding eq using assms(1,2) processBit_boundary [OF c]
    by (simp_all add: resetFrame_def logFrameError_def Let_def ok_def)
qed

lemma frame_received:
  fixes s :: clock and t :: "32 word" and tb :: "64 word"
  assumes "wasMark s" "\<not> frameError s"
  defines "s' \<equiv> rxPulses (onAir t (sendFrame tb @ [Mark])) s"
  shows "lastFrameBuffer s' = placed 1 (tl (sendFrame tb))"
    "frameEndTime s' = t + 60000"
    "framePosition s' = 0" "bitPosition s' = 1" "bitError s' = 0" "\<not> wasMark s'"
    "receiveBuffer s' = 0" "\<not> frameError s'"
    "errors s' = ((errors s)[nat (errIdx s) :=
        (if framePosition s = 6 \<and> bitPosition s = 60 \<and> bitError s = 0 then 0 else 1)])
        [nat (if errIdx s + 1 \<ge> 10 then 0 else errIdx s + 1) := 0]"
proof -
  define s1 where "s1 = rxPulse (t, t + lowMillis Mark) s"
  define s2 where "s2 = rxPulses (onAir (t + 1000) (tl (sendFrame tb))) s1"
  have split: "onAir t (sendFrame tb @ [Mark])
      = (t, t + lowMillis Mark) # onAir (t + 1000) (tl (sendFrame tb)) @ [(t + 60000, t + 60000 + lowMillis Mark)]"
  proof -
    have "sendFrame tb @ [Mark] = Mark # (tl (sendFrame tb) @ [Mark])"
      by (metis sendFrame_split append_Cons)
    then have "onAir t (sendFrame tb @ [Mark]) = onAir t (Mark # (tl (sendFrame tb) @ [Mark]))"
      by (rule arg_cong)
    also have "\<dots> = (t, t + lowMillis Mark) # onAir (t + 1000) (tl (sendFrame tb) @ [Mark])"
      by (simp add: add.commute)
    also have "onAir (t + 1000) (tl (sendFrame tb) @ [Mark])
       = onAir (t + 1000) (tl (sendFrame tb)) @ [(t + 60000, t + 60000 + lowMillis Mark)]"
      by (simp add: onAir_append length_sendFrame add.commute)
    finally show ?thesis by simp
  qed
  have s': "s' = rxPulse (t + 60000, t + 60000 + lowMillis Mark) s2"
    by (simp add: s'_def split rxPulses_Nil rxPulses_Cons rxPulses_append s1_def s2_def)
  note b1 = rx_boundary [OF assms(1,2), of t, folded s1_def]
  have pre: "\<not> frameError s1" "1 \<le> bitPosition s1"
    "bitPosition s1 + int (length (tl (sendFrame tb))) \<le> 60"
    "noPair (wasMark s1) (marks (tl (sendFrame tb)))"
    using b1 frame_shape(1) by (simp_all add: length_sendFrame marks_tl_sendFrame)
  have ne: "tl (sendFrame tb) \<noteq> []" using length_sendFrame [of tb] by (cases "sendFrame tb") auto
  have r: "bitPosition s2 = 60" "framePosition s2 = 6" "bitError s2 = 0" "wasMark s2"
    "receiveBuffer s2 = placed 1 (tl (sendFrame tb))" "\<not> frameError s2"
    "errors s2 = errors s1" "errIdx s2 = errIdx s1"
    using rx_data_run [OF pre, of "t + 1000", folded s2_def] b1 frame_shape(2,3) ne
    by (simp_all add: length_sendFrame marks_tl_sendFrame)
  note b2 = rx_boundary [OF r(4) r(6), of "t + 60000", folded s']
  show "lastFrameBuffer s' = placed 1 (tl (sendFrame tb))"
    "frameEndTime s' = t + 60000"
    "framePosition s' = 0" "bitPosition s' = 1" "bitError s' = 0" "\<not> wasMark s'"
    "receiveBuffer s' = 0" "\<not> frameError s'"
    "errors s' = ((errors s)[nat (errIdx s) :=
        (if framePosition s = 6 \<and> bitPosition s = 60 \<and> bitError s = 0 then 0 else 1)])
        [nat (if errIdx s + 1 \<ge> 10 then 0 else errIdx s + 1) := 0]"
    using b2 r b1(9,10) by simp_all
qed

section \<open>Further lemmas\<close>

lemma getField_zero: "getField L f 0 = 0"
  by (simp add: getField_def getBits_def)

lemma width_bounds:
  "rd DayHun b \<le> 3" "rd OffSign b < 8" "rd Dst b < 4" "rd Leapyear b < 2" "rd Leapsec b < 2"
  "rd HourTen b \<le> 3"
  using getBits_less [of 41 2 b] getBits_less [of 26 3 b] getBits_less [of 6 2 b]
    getBits_less [of 9 1 b] getBits_less [of 8 1 b] getBits_less [of 51 2 b]
  by (simp_all add: clock_fields)

lemma validFrame_rd:
  "validFrame (frameOf wwvbBuffer_clock b) =
     (rd MinOne b \<le> 9 \<and> rd MinTen b \<le> 5 \<and> rd HourOne b \<le> 9 \<and>
      rd HourTen b * 10 + rd HourOne b \<le> 23 \<and> rd DayOne b \<le> 9 \<and> rd DayTen b \<le> 9 \<and>
      1 \<le> doy b \<and> doy b \<le> 365 + rd Leapyear b \<and>
      rd YearOne b \<le> 9 \<and> rd YearTen b \<le> 9 \<and> rd OffVal b \<le> 9)"
  using width_bounds [of b]
  by (auto simp add: validFrame_def inRange_def frameOf_def dayOfYear_def doy_def)

lemma kind_width:
  "pulseClass (pulseWidthOf (s\<lparr>pulseStartTime := fst p, pulseEndTime := snd p, bitReceived := c\<rparr>))
     = pulseKind p"
  by (simp add: pulseKind_def pulseWidthOf_def)


lemma rx_overflow:
  fixes s :: clock and p :: pulse
  assumes "\<not> frameError s" "60 \<le> bitPosition s" "\<not> (pulseKind p = Marker \<and> wasMark s)"
  defines "s' \<equiv> rxPulse p s"
  shows "s' = resetFrame (logFrameError True (s\<lparr>pulseStartTime := fst p, pulseEndTime := snd p,
           bitReceived := False, lastBit := lastBit s'\<rparr>))"
    "framePosition s' = 0" "bitPosition s' = 1" "bitError s' = 0" "\<not> wasMark s'"
    "receiveBuffer s' = 0" "\<not> frameError s'"
    "lastFrameBuffer s' = lastFrameBuffer s" "frameEndTime s' = frameEndTime s"
    "errors s' = (errors s)[nat (errIdx s) := 1]"
    "errIdx s' = (if errIdx s + 1 \<ge> 10 then 0 else errIdx s + 1)"
proof -
  let ?s = "s\<lparr>pulseStartTime := fst p, pulseEndTime := snd p, bitReceived := True\<rparr>"
  have eq: "s' = processBit ?s" by (simp add: s'_def rxPulse_processBit)
  have "processBit ?s = resetFrame (logFrameError True (?s\<lparr>bitReceived := False, lastBit := lastBit (processBit ?s)\<rparr>))"
    using assms(1-3) by (intro processBit_overflow) (simp_all add: kind_width)
  then show 1: "s' = resetFrame (logFrameError True (s\<lparr>pulseStartTime := fst p, pulseEndTime := snd p,
           bitReceived := False, lastBit := lastBit s'\<rparr>))"
    by (simp add: eq)
  show "framePosition s' = 0" "bitPosition s' = 1" "bitError s' = 0" "\<not> wasMark s'"
    "receiveBuffer s' = 0" "\<not> frameError s'"
    "lastFrameBuffer s' = lastFrameBuffer s" "frameEndTime s' = frameEndTime s"
    "errors s' = (errors s)[nat (errIdx s) := 1]"
    "errIdx s' = (if errIdx s + 1 \<ge> 10 then 0 else errIdx s + 1)"
    using assms(1) by (subst 1, simp add: resetFrame_def logFrameError_def Let_def)+
qed

lemma onAir_Cons_Mark: "onAir t (Mark # xs) = (t, t + lowMillis Mark) # onAir (t + 1000) xs"
  by (simp add: add.commute)

lemma rx_more_mark:
  fixes s :: clock and t :: "32 word"
  assumes "\<not> frameError s" "bitPosition s < 60" "\<not> wasMark s"
  defines "s' \<equiv> rxPulse (t, t + lowMillis Mark) s"
  shows "lastFrameBuffer s' = lastFrameBuffer s" "frameEndTime s' = frameEndTime s"
    "errors s' = errors s" "errIdx s' = errIdx s" "wasMark s'" "\<not> frameError s'"
    "framePosition s' = framePosition s + 1" "bitPosition s' = bitPosition s + 1"
    "bitError s' = bitError s"
proof -
  have eq: "s' = s\<lparr>pulseStartTime := t, pulseEndTime := t + lowMillis Mark, bitReceived := False,
       lastBit := CHR ''M'', framePosition := framePosition s + 1,
       receiveBuffer := receiveBuffer s OR 0,
       bitPosition := bitPosition s + 1, wasMark := True\<rparr>"
    unfolding s'_def using assms(1-3) rxSignal [of s Mark t] by simp
  show "lastFrameBuffer s' = lastFrameBuffer s" "frameEndTime s' = frameEndTime s"
    "errors s' = errors s" "errIdx s' = errIdx s" "wasMark s'" "\<not> frameError s'"
    "framePosition s' = framePosition s + 1" "bitPosition s' = bitPosition s + 1"
    "bitError s' = bitError s"
    using assms(1) by (simp_all add: eq)
qed






lemma fold_nth_sum:
  "n \<le> length xs \<Longrightarrow> fold (\<lambda>i rv. rv + xs ! i) [0..<n] (rv0::int) = rv0 + sum_list (take n xs)"
proof (induction n)
  case 0
  then show ?case by simp
next
  case (Suc n)
  then have "take (Suc n) xs = take n xs @ [xs ! n]"
    by (simp add: take_Suc_conv_app_nth)
  then show ?case using Suc by simp
qed

lemma sumFrameErrors_sum:
  assumes "length (errors s) = 10"
  shows "sumFrameErrors rv s = rv + sum_list (errors s)"
  using fold_nth_sum [of 10 "errors s" rv] assms
  by (simp add: sumFrameErrors_def del: upt_rec_numeral)

lemma sum_window: "sum_list (window s) = sum_list (errors s)"
proof -
  have "sum_list (take (nat (errIdx s)) (errors s)) + sum_list (drop (nat (errIdx s)) (errors s))
      = sum_list (errors s)"
    by (metis append_take_drop_id sum_list_append)
  then show ?thesis unfolding window_def sum_list_append by (simp only: add.commute)
qed

lemma window_log:
  assumes "ringInv s"
  shows "window (logFrameError e s) = tl (window s) @ [if e then 1 else 0]"
    and "ringInv (logFrameError e s)"
proof -
  define i where "i = nat (errIdx s)"
  define xs where "xs = errors s"
  define v :: int where "v = (if e then 1 else 0)"
  have i: "i < 10" "length xs = 10" "errIdx s = int i"
    using assms by (auto simp add: ringInv_def i_def xs_def)
  have tlw: "tl (window s) = drop (Suc i) xs @ take i xs"
    using i by (simp add: window_def i_def [symmetric] xs_def [symmetric] drop_Suc tl_drop)
  show "ringInv (logFrameError e s)"
    using assms by (auto simp add: ringInv_def logFrameError_def Let_def)
  show "window (logFrameError e s) = tl (window s) @ [if e then 1 else 0]"
  proof (cases "i = 9")
    case True
    have "window (logFrameError e s) = xs[9 := v]"
      using i True by (simp add: window_def logFrameError_def Let_def xs_def v_def)
    also have "\<dots> = take 9 xs @ [v]"
      using i by (simp add: upd_conv_take_nth_drop)
    finally show ?thesis using True i by (simp add: tlw v_def)
  next
    case False
    then have lt: "Suc i < 10" using i by simp
    have "window (logFrameError e s) = drop (Suc i) (xs[i := v]) @ take (Suc i) (xs[i := v])"
      using i lt by (simp add: window_def logFrameError_def Let_def xs_def v_def nat_add_distrib)
    also have "\<dots> = drop (Suc i) xs @ take i xs @ [v]"
      using i by (simp add: take_Suc_conv_app_nth)
    finally show ?thesis by (simp add: tlw v_def)
  qed
qed

lemma window_logAll:
  assumes "ringInv s"
  shows "window (logAll es s) = drop (length es) (window s @ map (\<lambda>e. if e then 1 else 0) es)
    \<and> ringInv (logAll es s)"
  using assms
proof (induction es arbitrary: s)
  case Nil
  then show ?case by (simp add: logAll_def)
next
  case (Cons e es)
  have w: "window s \<noteq> []" using Cons.prems by (auto simp add: window_def ringInv_def)
  have "logAll (e # es) s = logAll es (logFrameError e s)" by (simp add: logAll_def)
  moreover have "drop (length es) ((tl (window s) @ [if e then 1 else 0]) @ map (\<lambda>e. if e then 1 else 0) es)
      = drop (length (e # es)) (window s @ map (\<lambda>e. if e then 1 else 0) (e # es))"
    using w by (cases "window s") simp_all
  ultimately show ?case
    using Cons.IH [OF window_log(2) [OF Cons.prems, of e]] window_log(1) [OF Cons.prems, of e]
    by simp
qed

lemma ringInv_init: "ringInv initClock"
  by (simp add: ringInv_def initClock_def)

lemma window_init: "window initClock = [1, 1, 1, 1, 1, 1, 1, 1, 1, 1]"
  by (simp add: window_def initClock_def)

lemma rx_boundary_any:
  fixes s :: clock and p :: pulse
  assumes "wasMark s" "\<not> frameError s" "pulseKind p = Marker"
  defines "ok \<equiv> framePosition s = 6 \<and> bitPosition s = 60 \<and> bitError s = 0"
  defines "s' \<equiv> rxPulse p s"
  shows "framePosition s' = 0" "bitPosition s' = 1" "bitError s' = 0" "\<not> wasMark s'"
    "receiveBuffer s' = 0" "\<not> frameError s'"
    "lastFrameBuffer s' = (if ok then receiveBuffer s else lastFrameBuffer s)"
    "frameEndTime s' = (if ok then fst p else frameEndTime s)"
    "errors s' = (errors s)[nat (errIdx s) := (if ok then 0 else 1)]"
    "errIdx s' = (if errIdx s + 1 \<ge> 10 then 0 else errIdx s + 1)"
    "\<not> ok \<Longrightarrow> s' = resetFrame (logFrameError True (s\<lparr>pulseStartTime := fst p,
        pulseEndTime := snd p, bitReceived := False, lastBit := lastBit s'\<rparr>))"
proof -
  let ?s = "s\<lparr>pulseStartTime := fst p, pulseEndTime := snd p, bitReceived := True\<rparr>"
  have c: "pulseClass (pulseWidthOf ?s) = Marker"
    using assms(3) by (simp add: kind_width)
  have eq: "s' = processBit ?s" by (simp add: s'_def rxPulse_processBit)
  note b = processBit_boundary [OF c]
  show "framePosition s' = 0" "bitPosition s' = 1" "bitError s' = 0" "\<not> wasMark s'"
    "receiveBuffer s' = 0" "\<not> frameError s'"
    "lastFrameBuffer s' = (if ok then receiveBuffer s else lastFrameBuffer s)"
    "frameEndTime s' = (if ok then fst p else frameEndTime s)"
    "errors s' = (errors s)[nat (errIdx s) := (if ok then 0 else 1)]"
    "errIdx s' = (if errIdx s + 1 \<ge> 10 then 0 else errIdx s + 1)"
    unfolding eq using assms(1,2) b
    by (simp_all add: resetFrame_def logFrameError_def Let_def ok_def)
  show "s' = resetFrame (logFrameError True (s\<lparr>pulseStartTime := fst p,
        pulseEndTime := snd p, bitReceived := False, lastBit := lastBit s'\<rparr>))" if "\<not> ok"
  proof -
    from that have n: "(framePosition s = 6 \<and> bitPosition s = 60 \<and> bitError s = 0) = False"
      by (simp add: ok_def)
    have "processBit ?s = resetFrame (logFrameError True
        (?s\<lparr>bitReceived := False, lastBit := CHR ''*''\<rparr>))"
      using b assms(1,2) by (simp add: n)
    then show ?thesis
      unfolding eq by (simp add: resetFrame_def logFrameError_def Let_def)
  qed
qed

section \<open>The main loop with its 250 ms branch\<close>

text \<open>\<open>processBit\<close> never reads the held frame or its stamp.\<close>

lemma decoder_buffer: "decoder (buffer v s) = buffer v (decoder s)"
  by (simp add: decoder_def buffer_def Let_def)























section \<open>Pulse widths and durations\<close>

lemma class_of_width: "(pulseClass w = c) = (unat w \<in> band_spec c)"
  by (cases c) (auto simp add: pulseClass_def word_less_nat_alt word_le_nat_alt not_less)

lemma bands_cover: "\<exists>k. d \<in> band_spec k"
proof (cases "d < 100 \<or> 900 \<le> d")
  case True
  then have "d \<in> band_spec Invalid" by auto
  then show ?thesis ..
next
  case False
  then have "d \<in> band_spec Zero \<or> d \<in> band_spec One \<or> d \<in> band_spec Marker" by auto
  then show ?thesis by blast
qed

lemma bands_disjoint: "d \<in> band_spec c \<Longrightarrow> d \<in> band_spec c' \<Longrightarrow> c = c'"
  by (cases c; cases c') auto

lemma width_truncated: "unat (ucast (w :: 32 word) :: 16 word) = unat w mod 65536"
  by (simp add: unsigned_ucast_eq take_bit_eq_mod)

lemma kind_truncated: "(pulseKind p = c) = (pulseMillis p mod 65536 \<in> band_spec c)"
  by (simp add: pulseKind_def pulseMillis_def class_of_width width_truncated)

lemma kind_of_short:
  assumes "pulseMillis p < 65536"
  shows "(pulseKind p = c) = (pulseMillis p \<in> band_spec c)"
  using assms by (simp add: kind_truncated)

section \<open>Claims\<close>




text \<open>
  C2. At a frame boundary (a marker pulse right after a marker pulse) the buffer is accepted
  if and only if the marker count is 6, the position counter is 60 and the error count
  is 0. On acceptance the receive buffer replaces the held frame and a success is logged;
  on rejection a failure is logged and the held frame stays. Either way the marker count,
  the position, the error count, the previous-was-marker flag and the receive buffer are
  reset. 6 is the number of markers the simulator's frame has after its opening one.
\<close>

theorem frame_boundary:
  assumes "pulseClass (pulseWidthOf s) = Marker" and "wasMark s" and "\<not> frameError s"
  shows "processBit s = resetFrame
     (if framePosition s = 6 \<and> bitPosition s = 60 \<and> bitError s = 0
      then logFrameError False (s\<lparr>bitReceived := False, lastBit := CHR ''*'',
             frameEndTime := pulseStartTime s, lastFrameBuffer := receiveBuffer s\<rparr>)
      else logFrameError True (s\<lparr>bitReceived := False, lastBit := CHR ''*''\<rparr>))
    \<and> lastFrameBuffer (processBit s) =
        (if framePosition s = 6 \<and> bitPosition s = 60 \<and> bitError s = 0
         then receiveBuffer s else lastFrameBuffer s)
    \<and> errors (processBit s) = (errors s)[nat (errIdx s) :=
        (if framePosition s = 6 \<and> bitPosition s = 60 \<and> bitError s = 0 then 0 else 1)]
    \<and> framePosition (processBit s) = 0 \<and> bitPosition (processBit s) = 1
    \<and> bitError (processBit s) = 0 \<and> \<not> wasMark (processBit s)
    \<and> receiveBuffer (processBit s) = 0
    \<and> length (filter id (marks (tl (sendFrame tb)))) = 6"
proof -
  note eq = processBit_boundary [OF assms(1) assms(3) assms(2)]
  have "length (filter id (marks (tl (sendFrame tb)))) = 6"
    by (simp only: marks_tl_sendFrame frame_shape)
  then show ?thesis
    unfolding eq by (simp add: resetFrame_def logFrameError_def Let_def)
qed

theorem frame_boundary_witness:
  "pulseClass (pulseWidthOf fullFrame) = Marker \<and> wasMark fullFrame \<and> \<not> frameError fullFrame
   \<and> lastFrameBuffer (processBit fullFrame) = 5
   \<and> errors (processBit fullFrame) = [0, 1, 1, 1, 1, 1, 1, 1, 1, 1]
   \<and> bitPosition (processBit fullFrame) = 1"
proof -
  have h: "pulseClass (pulseWidthOf fullFrame) = Marker" "wasMark fullFrame" "\<not> frameError fullFrame"
    by (simp_all add: fullFrame_def initClock_def pulseWidthOf_def pulseClass_def)
  have f: "framePosition fullFrame = 6" "bitPosition fullFrame = 60" "bitError fullFrame = 0"
    "receiveBuffer fullFrame = 5" "errors fullFrame = [1, 1, 1, 1, 1, 1, 1, 1, 1, 1]"
    "errIdx fullFrame = 0"
    by (simp_all add: fullFrame_def initClock_def)
  from frame_boundary [OF h, where tb = 0, THEN conjunct2] show ?thesis
    using h by (simp add: f)
qed

text \<open>
  C3. The class of a pulse is a total function of its duration, but not the one with the
  four bands: \<open>processBit\<close> keeps the duration in an \<open>unsigned int\<close>, 16 bits wide on the
  sketch's board, so the class is that of the band of the duration modulo 65536 ms (for
  durations below 65536 ms, the band of the duration itself, lemma \<open>kind_of_short\<close>; the
  bands are disjoint and exhaustive, lemmas \<open>bands_cover\<close> and \<open>bands_disjoint\<close>). A pulse
  of 65736 ms, in the band of 900 ms or more, is taken as a Zero and one of 66336 ms as a
  Marker, with no bit error counted, where the sketch's comment calls the long pulses an
  error in reception.
\<close>

theorem pulse_bands:
  "(pulseKind p = c) = (pulseMillis p mod 65536 \<in> band_spec c)
   \<and> pulseMillis (0, 65736) = 65736 \<and> 65736 \<in> band_spec Invalid
   \<and> pulseKind (0, 65736) = Zero
   \<and> bitError (rxPulse (0, 65736) initClock) = 0
   \<and> lastBit (rxPulse (0, 65736) initClock) = CHR ''0''
   \<and> pulseMillis (0, 66336) = 66336 \<and> 66336 \<in> band_spec Invalid
   \<and> pulseKind (0, 66336) = Marker
   \<and> bitError (rxPulse (0, 66336) initClock) = 0
   \<and> lastBit (rxPulse (0, 66336) initClock) = CHR ''M''"
proof -
  have m: "pulseMillis (0, 65736) = 65736" "pulseMillis (0, 66336) = 66336"
    by (simp_all add: pulseMillis_def)
  have k: "pulseKind (0, 65736) = Zero" "pulseKind (0, 66336) = Marker"
    by (simp_all add: kind_truncated m)
  have h: "\<not> frameError initClock" "bitPosition initClock < 60" "\<not> wasMark initClock"
    by (simp_all add: initClock_def)
  define a where "a = initClock\<lparr>pulseStartTime := fst (0 :: 32 word, 65736 :: 32 word),
    pulseEndTime := snd (0 :: 32 word, 65736 :: 32 word), bitReceived := True\<rparr>"
  define b where "b = initClock\<lparr>pulseStartTime := fst (0 :: 32 word, 66336 :: 32 word),
    pulseEndTime := snd (0 :: 32 word, 66336 :: 32 word), bitReceived := True\<rparr>"
  have ca: "pulseClass (pulseWidthOf a) = Zero" and cb: "pulseClass (pulseWidthOf b) = Marker"
    unfolding a_def b_def kind_width by (rule k)+
  have ha: "\<not> frameError a" "bitPosition a < 60"
    and hb: "\<not> frameError b" "bitPosition b < 60" "\<not> wasMark b"
    by (simp_all add: a_def b_def initClock_def)
  have z: "bitError (rxPulse (0, 65736) initClock) = 0"
    "lastBit (rxPulse (0, 65736) initClock) = CHR ''0''"
    unfolding rxPulse_processBit a_def [symmetric] processBit_zero [OF ca ha]
    by (simp_all add: a_def initClock_def)
  have y: "bitError (rxPulse (0, 66336) initClock) = 0"
    "lastBit (rxPulse (0, 66336) initClock) = CHR ''M''"
    unfolding rxPulse_processBit b_def [symmetric] processBit_marker [OF cb hb]
    by (simp_all add: b_def initClock_def)
  show ?thesis
    using kind_truncated [of p c] m k z y by simp
qed

text \<open>
  C4 (amended). The invariant of the held frame (every member in its range, the hour at
  most 23, the day of the year between 1 and 365, or 366 with the leap-year flag set) is
  preserved by the one-minute advance. Boundary validation does not establish it: it
  checks the marker count, the position and the error count, and no member of the frame.
\<close>

theorem valid_advance:
  assumes "validFrame (frameOf wwvbBuffer_clock b)"
  shows "validFrame (frameOf wwvbBuffer_clock (incrementWwvbMinute b))"
proof -
  from assms have v: "rd MinOne b \<le> 9" "rd MinTen b \<le> 5" "rd HourOne b \<le> 9"
    "rd HourTen b * 10 + rd HourOne b \<le> 23" "rd DayOne b \<le> 9" "rd DayTen b \<le> 9"
    "1 \<le> doy b" "doy b \<le> 365 + rd Leapyear b" "rd YearOne b \<le> 9" "rd YearTen b \<le> 9"
    and o: "rd OffVal b \<le> 9"
    by (simp_all add: validFrame_rd)
  note a = advance_facts [OF v]
  have same: "rd Leapyear (incrementWwvbMinute b) = rd Leapyear b"
    "rd OffVal (incrementWwvbMinute b) = rd OffVal b"
    by (simp_all add: a(5))
  have d: "1 \<le> doy (incrementWwvbMinute b)" "doy (incrementWwvbMinute b) \<le> 365 + rd Leapyear b"
    using a(3) v(7,8) by (auto split: if_splits)
  show ?thesis
    unfolding validFrame_rd using a(1) d o by (simp add: same)
qed

theorem valid_advance_witness:
  "validFrame (frameOf wwvbBuffer_clock firstMinute)
   \<and> validFrame (frameOf wwvbBuffer_clock (incrementWwvbMinute firstMinute))"
proof -
  have v: "validFrame (frameOf wwvbBuffer_clock firstMinute)"
    by (simp add: validFrame_rd firstMinute_def getField_zero doy_def)
  from valid_advance [OF v] v show ?thesis by simp
qed

text \<open>Boundary validation does not establish the invariant of C4: the signals of a frame
  whose minute digit is 15, received after a marker, pass it (the frame is stamped and a
  success is logged) and the held frame is out of range.\<close>

theorem validated_out_of_range:
  "frameEndTime badRun = 61000
   \<and> errors badRun = [1, 0, 1, 1, 1, 1, 1, 1, 1, 1]
   \<and> minuteOnes (frameOf wwvbBuffer_clock (lastFrameBuffer badRun)) = 15
   \<and> \<not> validFrame (frameOf wwvbBuffer_clock (lastFrameBuffer badRun))"
proof -
  define s1 where "s1 = rxPulse (0, 0 + lowMillis Mark) initClock"
  have h: "\<not> frameError initClock" "bitPosition initClock < 60" "\<not> wasMark initClock"
    by (simp_all add: initClock_def)
  note a = rx_more_mark [OF h, of 0, folded s1_def]
  have run: "badRun = rxPulses (onAir 1000 (sendFrame (preset badMinute) @ [Mark])) s1"
    unfolding badRun_def s1_def by (simp only: append_Cons onAir_Cons_Mark rxPulses_Cons) simp
  note r = frame_received [OF a(5,6), of 1000 "preset badMinute", folded run]
  have p: "frameOf wwvbBuffer_sim (preset badMinute) = badMinute"
    by (simp add: frameOf_def preset_def Let_def sim_get_set sim_widths badMinute_def setupFrame_def)
  have dec: "frameOf wwvbBuffer_clock (lastFrameBuffer badRun) = badMinute"
    using r(1) received_frame [of "preset badMinute"] p by simp
  have e: "errors badRun = [1, 0, 1, 1, 1, 1, 1, 1, 1, 1]"
    using r(9) a by (simp add: initClock_def)
  have v: "\<not> validFrame badMinute"
    by (simp add: validFrame_def inRange_def badMinute_def setupFrame_def)
  show ?thesis using r(2) e v unfolding dec by (simp add: badMinute_def setupFrame_def)
qed

text \<open>
  C5 (amended). For a frame in range, the advance adds one minute to the time of day, modulo
  the 1440 minutes of a day, which is what the ripple-carry rules for the four digits amount
  to. From 23:59 (digits 2, 3, 5, 9) it yields 00:00, all four digits zero, and the day of
  the year goes up by one unless it was the last day of the year (365, or 366 with the
  leap-year flag set), where the year rollover of C6 takes it to 1.
\<close>

theorem midnight_carry:
  assumes "validFrame (frameOf wwvbBuffer_clock b)"
  shows "(rd HourTen (incrementWwvbMinute b) * 10 + rd HourOne (incrementWwvbMinute b)) * 60
       + rd MinTen (incrementWwvbMinute b) * 10 + rd MinOne (incrementWwvbMinute b)
     = ((rd HourTen b * 10 + rd HourOne b) * 60 + rd MinTen b * 10 + rd MinOne b + 1) mod 1440
   \<and> (rd HourTen b = 2 \<and> rd HourOne b = 3 \<and> rd MinTen b = 5 \<and> rd MinOne b = 9 \<longrightarrow>
        rd HourTen (incrementWwvbMinute b) = 0 \<and> rd HourOne (incrementWwvbMinute b) = 0 \<and>
        rd MinTen (incrementWwvbMinute b) = 0 \<and> rd MinOne (incrementWwvbMinute b) = 0 \<and>
        (doy b \<noteq> 365 + rd Leapyear b \<longrightarrow> doy (incrementWwvbMinute b) = doy b + 1))"
proof -
  from assms have v: "rd MinOne b \<le> 9" "rd MinTen b \<le> 5" "rd HourOne b \<le> 9"
    "rd HourTen b * 10 + rd HourOne b \<le> 23" "rd DayOne b \<le> 9" "rd DayTen b \<le> 9"
    "1 \<le> doy b" "doy b \<le> 365 + rd Leapyear b" "rd YearOne b \<le> 9" "rd YearTen b \<le> 9"
    by (simp_all add: validFrame_rd)
  note a = advance_facts [OF v]
  have 1: "(rd HourTen (incrementWwvbMinute b) * 10 + rd HourOne (incrementWwvbMinute b)) * 60
       + rd MinTen (incrementWwvbMinute b) * 10 + rd MinOne (incrementWwvbMinute b)
     = ((rd HourTen b * 10 + rd HourOne b) * 60 + rd MinTen b * 10 + rd MinOne b + 1) mod 1440"
    by (rule a(2))
  have 2: "rd HourTen (incrementWwvbMinute b) = 0 \<and> rd HourOne (incrementWwvbMinute b) = 0 \<and>
        rd MinTen (incrementWwvbMinute b) = 0 \<and> rd MinOne (incrementWwvbMinute b) = 0 \<and>
        (doy b \<noteq> 365 + rd Leapyear b \<longrightarrow> doy (incrementWwvbMinute b) = doy b + 1)"
    if h: "rd HourTen b = 2 \<and> rd HourOne b = 3 \<and> rd MinTen b = 5 \<and> rd MinOne b = 9"
  proof -
    have z: "(rd HourTen (incrementWwvbMinute b) * 10 + rd HourOne (incrementWwvbMinute b)) * 60
       + rd MinTen (incrementWwvbMinute b) * 10 + rd MinOne (incrementWwvbMinute b) = 0"
      using 1 h by simp
    have d: "doy (incrementWwvbMinute b) = (if doy b = 365 + rd Leapyear b then 1 else doy b + 1)"
      using a(3) h by simp
    show ?thesis using z d by simp
  qed
  show ?thesis using 1 2 by blast
qed

theorem midnight_carry_witness:
  "validFrame (frameOf wwvbBuffer_clock lastMinute)
   \<and> rd HourTen lastMinute = 2 \<and> rd HourOne lastMinute = 3
   \<and> rd MinTen lastMinute = 5 \<and> rd MinOne lastMinute = 9
   \<and> doy lastMinute = 1 \<and> doy lastMinute \<noteq> 365 + rd Leapyear lastMinute
   \<and> rd HourTen (incrementWwvbMinute lastMinute) = 0
   \<and> rd HourOne (incrementWwvbMinute lastMinute) = 0
   \<and> rd MinTen (incrementWwvbMinute lastMinute) = 0
   \<and> rd MinOne (incrementWwvbMinute lastMinute) = 0
   \<and> doy (incrementWwvbMinute lastMinute) = 2"
proof -
  have f: "rd HourTen lastMinute = 2" "rd HourOne lastMinute = 3" "rd MinTen lastMinute = 5"
    "rd MinOne lastMinute = 9" "doy lastMinute = 1" "rd Leapyear lastMinute = 0"
    by (simp_all add: lastMinute_def getField_zero doy_def)
  have v: "validFrame (frameOf wwvbBuffer_clock lastMinute)"
    by (simp add: validFrame_rd f) (simp add: lastMinute_def getField_zero)
  from midnight_carry [OF v, THEN conjunct2] show ?thesis
    using v by (simp add: f)
qed

text \<open>C5 as stated fails on the last day of a year: from 23:59 on day 365 of a year that
  is not a leap year the day of the year becomes 1, not 366.\<close>

theorem midnight_carry_counterexample:
  "validFrame (frameOf wwvbBuffer_clock newYearsEve)
   \<and> rd HourTen newYearsEve = 2 \<and> rd HourOne newYearsEve = 3
   \<and> rd MinTen newYearsEve = 5 \<and> rd MinOne newYearsEve = 9
   \<and> doy newYearsEve = 365
   \<and> doy (incrementWwvbMinute newYearsEve) = 1
   \<and> doy (incrementWwvbMinute newYearsEve) \<noteq> doy newYearsEve + 1"
proof -
  have f: "rd HourTen newYearsEve = 2" "rd HourOne newYearsEve = 3" "rd MinTen newYearsEve = 5"
    "rd MinOne newYearsEve = 9" "rd DayHun newYearsEve = 3" "rd DayTen newYearsEve = 6"
    "rd DayOne newYearsEve = 5" "rd Leapyear newYearsEve = 0" "rd YearOne newYearsEve = 0"
    "rd YearTen newYearsEve = 0" "rd OffVal newYearsEve = 0"
    by (simp_all add: newYearsEve_def getField_zero)
  have v: "validFrame (frameOf wwvbBuffer_clock newYearsEve)"
    by (simp add: validFrame_rd f doy_def)
  have d: "doy (incrementWwvbMinute newYearsEve) = 1"
    using f by (simp add: incrementWwvbMinute_def tickMinOne_def carryMinTen_def
      carryHourOne_def carryHour_def carryDayOne_def carryDayTen_def newYear_def
      carryYearOne_def carryYearTen_def doy_def Let_def)
  show ?thesis using v d by (simp add: f doy_def)
qed

text \<open>
  C6. Year rollover: when the advance carries past 23:59 of day 365 and the leap-year flag
  is clear, or of day 366 and the flag is set, the day of the year becomes 1 and the ones
  digit of the year goes up by one; 9 goes to 0 and carries into the tens digit, whose 9
  goes to 0 with no further carry.
\<close>

theorem year_rollover:
  assumes "rd HourTen b = 2" and "rd HourOne b = 3" and "rd MinTen b = 5" and "rd MinOne b = 9"
    and "rd DayHun b = 3" and "rd DayTen b = 6"
    and "(rd Leapyear b = 0 \<and> rd DayOne b = 5) \<or> (rd Leapyear b = 1 \<and> rd DayOne b = 6)"
    and "rd YearOne b \<le> 9" and "rd YearTen b \<le> 9"
  shows "rd DayHun (incrementWwvbMinute b) = 0 \<and> rd DayTen (incrementWwvbMinute b) = 0
    \<and> rd DayOne (incrementWwvbMinute b) = 1 \<and> doy (incrementWwvbMinute b) = 1
    \<and> rd YearOne (incrementWwvbMinute b) = (if rd YearOne b = 9 then 0 else rd YearOne b + 1)
    \<and> rd YearTen (incrementWwvbMinute b) =
        (if rd YearOne b = 9 then (if rd YearTen b = 9 then 0 else rd YearTen b + 1)
         else rd YearTen b)
    \<and> rd HourTen (incrementWwvbMinute b) = 0 \<and> rd HourOne (incrementWwvbMinute b) = 0
    \<and> rd MinTen (incrementWwvbMinute b) = 0 \<and> rd MinOne (incrementWwvbMinute b) = 0
    \<and> rd Leapyear (incrementWwvbMinute b) = rd Leapyear b"
proof -
  note defs = incrementWwvbMinute_def tickMinOne_def carryMinTen_def carryHourOne_def
      carryHour_def carryDayOne_def carryDayTen_def newYear_def carryYearOne_def
      carryYearTen_def doy_def Let_def
  from assms(7) show ?thesis
  proof
    assume "rd Leapyear b = 0 \<and> rd DayOne b = 5"
    then show ?thesis using assms(1-6,8,9) by (simp add: defs)
  next
    assume "rd Leapyear b = 1 \<and> rd DayOne b = 6"
    then show ?thesis using assms(1-6,8,9) by (simp add: defs)
  qed
qed

theorem year_rollover_witness:
  "rd HourTen newYearsEve = 2 \<and> rd HourOne newYearsEve = 3 \<and> rd MinTen newYearsEve = 5
   \<and> rd MinOne newYearsEve = 9 \<and> rd DayHun newYearsEve = 3 \<and> rd DayTen newYearsEve = 6
   \<and> rd Leapyear newYearsEve = 0 \<and> rd DayOne newYearsEve = 5
   \<and> rd YearOne newYearsEve \<le> 9 \<and> rd YearTen newYearsEve \<le> 9
   \<and> doy (incrementWwvbMinute newYearsEve) = 1
   \<and> rd YearOne (incrementWwvbMinute newYearsEve) = 1
   \<and> rd YearTen (incrementWwvbMinute newYearsEve) = 0"
proof -
  have f: "rd HourTen newYearsEve = 2" "rd HourOne newYearsEve = 3" "rd MinTen newYearsEve = 5"
    "rd MinOne newYearsEve = 9" "rd DayHun newYearsEve = 3" "rd DayTen newYearsEve = 6"
    "rd DayOne newYearsEve = 5" "rd Leapyear newYearsEve = 0" "rd YearOne newYearsEve = 0"
    "rd YearTen newYearsEve = 0"
    by (simp_all add: newYearsEve_def getField_zero)
  have g: "(rd Leapyear newYearsEve = 0 \<and> rd DayOne newYearsEve = 5) \<or>
           (rd Leapyear newYearsEve = 1 \<and> rd DayOne newYearsEve = 6)"
    "rd YearOne newYearsEve \<le> 9" "rd YearTen newYearsEve \<le> 9"
    by (simp_all add: f)
  from year_rollover [OF f(1-6) g] show ?thesis by (simp add: f)
qed

text \<open>
  C7. After 10 consecutive failures the window holds ten failures, and one success after
  them overwrites the oldest slot and leaves nine (in general the window holds the last 10
  outcomes, lemma \<open>window_logAll\<close>). The score, however, is not the number of failures in
  the window: \<open>sumFrameErrors\<close> adds the ten slots onto a local that was never initialised,
  so it returns that number plus whatever the local held.
\<close>

theorem score_after_failures:
  "window (logAll [True, True, True, True, True, True, True, True, True, True] initClock)
     = [1, 1, 1, 1, 1, 1, 1, 1, 1, 1]
   \<and> window (logAll [True, True, True, True, True, True, True, True, True, True, False] initClock)
     = [1, 1, 1, 1, 1, 1, 1, 1, 1, 0]
   \<and> sumFrameErrors rv
        (logAll [True, True, True, True, True, True, True, True, True, True] initClock)
     = rv + 10
   \<and> sumFrameErrors rv
        (logAll [True, True, True, True, True, True, True, True, True, True, False] initClock)
     = rv + 9
   \<and> sumFrameErrors 1
        (logAll [True, True, True, True, True, True, True, True, True, True] initClock)
     \<noteq> 10"
proof -
  let ?a = "logAll [True, True, True, True, True, True, True, True, True, True] initClock"
  let ?b = "logAll [True, True, True, True, True, True, True, True, True, True, False] initClock"
  have wa: "window ?a = [1, 1, 1, 1, 1, 1, 1, 1, 1, 1]" and ia: "ringInv ?a"
    using window_logAll [OF ringInv_init, of "[True, True, True, True, True, True, True, True, True, True]"]
    by (simp_all add: window_init)
  have wb: "window ?b = [1, 1, 1, 1, 1, 1, 1, 1, 1, 0]" and ib: "ringInv ?b"
    using window_logAll [OF ringInv_init, of "[True, True, True, True, True, True, True, True, True, True, False]"]
    by (simp_all add: window_init)
  have "sum_list (errors ?a) = 10" using sum_window [of ?a] by (simp add: wa)
  then have sa: "sumFrameErrors rv ?a = rv + 10"
    using ia by (simp add: sumFrameErrors_sum ringInv_def)
  have "sum_list (errors ?b) = 9" using sum_window [of ?b] by (simp add: wb)
  then have sb: "sumFrameErrors rv ?b = rv + 9"
    using ib by (simp add: sumFrameErrors_sum ringInv_def)
  have sc: "sumFrameErrors 1 ?a = 11"
    using \<open>sum_list (errors ?a) = 10\<close> ia by (simp add: sumFrameErrors_sum ringInv_def)
  show ?thesis using wa wb sa sb sc by simp
qed



text \<open>
  C9. Overflow guard: a pulse that is not a frame boundary and finds the position counter
  at 60 pushes it past 60; the receiver then logs a failure and resets the marker count,
  the position, the error count, the previous-was-marker flag and the receive buffer, and
  keeps the held frame. The state it leaves has the same form as after a failed boundary
  validation. Hence after every pulse, from startup on, the position is between 1 and 60.
\<close>

theorem overflow_guard:
  assumes "\<not> frameError s" and "60 \<le> bitPosition s"
    and "\<not> (pulseKind p = Marker \<and> wasMark s)"
  shows "rxPulse p s = resetFrame (logFrameError True (s\<lparr>pulseStartTime := fst p,
           pulseEndTime := snd p, bitReceived := False, lastBit := lastBit (rxPulse p s)\<rparr>))
    \<and> framePosition (rxPulse p s) = 0 \<and> bitPosition (rxPulse p s) = 1
    \<and> bitError (rxPulse p s) = 0 \<and> \<not> wasMark (rxPulse p s)
    \<and> receiveBuffer (rxPulse p s) = 0
    \<and> errors (rxPulse p s) = (errors s)[nat (errIdx s) := 1]
    \<and> lastFrameBuffer (rxPulse p s) = lastFrameBuffer s
    \<and> (pulseKind q = Marker \<and> wasMark u \<and> \<not> frameError u \<and>
        \<not> (framePosition u = 6 \<and> bitPosition u = 60 \<and> bitError u = 0) \<longrightarrow>
        rxPulse q u = resetFrame (logFrameError True (u\<lparr>pulseStartTime := fst q,
           pulseEndTime := snd q, bitReceived := False, lastBit := lastBit (rxPulse q u)\<rparr>)))
    \<and> 1 \<le> bitPosition (rxPulses ps initClock) \<and> bitPosition (rxPulses ps initClock) \<le> 60"
proof -
  note o = rx_overflow [OF assms]
  have b: "rxPulse q u = resetFrame (logFrameError True (u\<lparr>pulseStartTime := fst q,
           pulseEndTime := snd q, bitReceived := False, lastBit := lastBit (rxPulse q u)\<rparr>))"
    if "pulseKind q = Marker \<and> wasMark u \<and> \<not> frameError u \<and>
        \<not> (framePosition u = 6 \<and> bitPosition u = 60 \<and> bitError u = 0)"
    using that rx_boundary_any(11) [of u q] by blast
  have r: "1 \<le> bitPosition (rxPulses ps initClock) \<and> bitPosition (rxPulses ps initClock) \<le> 60"
    using reachable_bounds [of ps] by (simp add: clockInv_def)
  show ?thesis
    using o(1,2,3,4,5,6,8,10) b r by blast
qed

theorem overflow_guard_witness:
  "\<not> frameError brimFrame \<and> 60 \<le> bitPosition brimFrame
   \<and> \<not> (pulseKind (0, 200) = Marker \<and> wasMark brimFrame)
   \<and> bitPosition (rxPulse (0, 200) brimFrame) = 1
   \<and> framePosition (rxPulse (0, 200) brimFrame) = 0
   \<and> errors (rxPulse (0, 200) brimFrame) = [1, 1, 1, 1, 1, 1, 1, 1, 1, 1]
   \<and> pulseKind (0, 800) = Marker \<and> wasMark syncedClock \<and> \<not> frameError syncedClock
   \<and> \<not> (framePosition syncedClock = 6 \<and> bitPosition syncedClock = 60 \<and> bitError syncedClock = 0)
   \<and> rxPulse (0, 800) syncedClock = resetFrame (logFrameError True (syncedClock\<lparr>pulseStartTime := 0,
           pulseEndTime := 800, bitReceived := False, lastBit := lastBit (rxPulse (0, 800) syncedClock)\<rparr>))"
proof -
  have h: "\<not> frameError brimFrame" "60 \<le> bitPosition brimFrame"
    "\<not> (pulseKind (0, 200) = Marker \<and> wasMark brimFrame)"
    by (simp_all add: brimFrame_def initClock_def)
  have g: "pulseKind (0, 800) = Marker \<and> wasMark syncedClock \<and> \<not> frameError syncedClock
     \<and> \<not> (framePosition syncedClock = 6 \<and> bitPosition syncedClock = 60 \<and> bitError syncedClock = 0)"
    by (simp add: syncedClock_def initClock_def pulseKind_def pulseClass_def)
  have e: "errors brimFrame = [1, 1, 1, 1, 1, 1, 1, 1, 1, 1]" "errIdx brimFrame = 0"
    by (simp_all add: brimFrame_def initClock_def)
  from overflow_guard [OF h, of "(0, 800)" syncedClock "[]"] show ?thesis
    using h g by (simp add: e)
qed

text \<open>
  C10. Right after startup every one of the 10 slots holds a failure. What
  \<open>sumFrameErrors\<close> reports for them is 10 plus the indeterminate start value of its local
  \<open>rv\<close>, so the report is 10 only if that value happens to be 0.
\<close>

theorem startup_window:
  "errors initClock = [1, 1, 1, 1, 1, 1, 1, 1, 1, 1]
   \<and> sumFrameErrors rv initClock = rv + 10
   \<and> sumFrameErrors 1 initClock \<noteq> 10"
proof -
  have e: "errors initClock = [1, 1, 1, 1, 1, 1, 1, 1, 1, 1]" by (simp add: initClock_def)
  then have "sumFrameErrors r initClock = r + 10" for r
    by (simp add: sumFrameErrors_sum)
  then show ?thesis using e by simp
qed

end
